theory Spec2Isabelle
  imports Complex_Main
begin

section \<open>Numbers\<close>

text \<open>
  The plot functions compute with JavaScript numbers. For the rectangle, the clear, the
  copy and the text, which work on pixel coordinates, arguments are taken to be finite and
  are modelled as \<^typ>\<open>real\<close>, with exact arithmetic. A division whose divisor may be zero
  has a result that need not be finite; such results, and everything computed from them,
  live in \<open>jsnum\<close>, where \<open>NaN\<close>, \<open>PInf\<close> and \<open>NInf\<close> are values and behave as in the
  language (zero is taken as \<open>+0\<close>). The line and the outlines are modelled in double
  precision, see below.
\<close>

datatype jsnum = Fin real | PInf | NInf | NaN

fun js_div :: "real \<Rightarrow> real \<Rightarrow> jsnum" where
  "js_div a b =
     (if b \<noteq> 0 then Fin (a / b)
      else if a = 0 then NaN
      else if 0 < a then PInf else NInf)"

fun js_add :: "jsnum \<Rightarrow> jsnum \<Rightarrow> jsnum" where
  "js_add (Fin a) (Fin b) = Fin (a + b)"
| "js_add NaN _ = NaN"
| "js_add _ NaN = NaN"
| "js_add PInf NInf = NaN"
| "js_add NInf PInf = NaN"
| "js_add PInf _ = PInf"
| "js_add _ PInf = PInf"
| "js_add NInf _ = NInf"
| "js_add _ NInf = NInf"

fun js_mul :: "jsnum \<Rightarrow> jsnum \<Rightarrow> jsnum" where
  "js_mul (Fin a) (Fin b) = Fin (a * b)"
| "js_mul NaN _ = NaN"
| "js_mul _ NaN = NaN"
| "js_mul (Fin a) PInf = (if a = 0 then NaN else if 0 < a then PInf else NInf)"
| "js_mul (Fin a) NInf = (if a = 0 then NaN else if 0 < a then NInf else PInf)"
| "js_mul PInf (Fin b) = (if b = 0 then NaN else if 0 < b then PInf else NInf)"
| "js_mul NInf (Fin b) = (if b = 0 then NaN else if 0 < b then NInf else PInf)"
| "js_mul PInf PInf = PInf"
| "js_mul NInf NInf = PInf"
| "js_mul PInf NInf = NInf"
| "js_mul NInf PInf = NInf"

text \<open>\<open>js_less a b\<close> is the comparison \<open>a < b\<close>; it is false as soon as one side is \<open>NaN\<close>.\<close>

fun js_less :: "jsnum \<Rightarrow> jsnum \<Rightarrow> bool" where
  "js_less (Fin a) (Fin b) = (a < b)"
| "js_less NaN _ = False"
| "js_less _ NaN = False"
| "js_less NInf NInf = False"
| "js_less NInf _ = True"
| "js_less PInf _ = False"
| "js_less (Fin a) PInf = True"
| "js_less (Fin a) NInf = False"

fun is_finite :: "jsnum \<Rightarrow> bool" where
  "is_finite (Fin a) = True"
| "is_finite _ = False"

text \<open>
  Modelled from the spec: the helper \<open>clamp\<close> is called by \<open>bmp_plot_line\<close> and
  \<open>bmp_plot_resource\<close> but defined elsewhere in the repository. The spec says a value
  outside the range "is silently reduced to the nearest bound".
\<close>

definition clamp :: "real \<Rightarrow> real \<Rightarrow> real \<Rightarrow> real" where
  "clamp v lo hi = (if v < lo then lo else if hi < v then hi else v)"

section \<open>Double precision\<close>

text \<open>
  \<open>bmp_plot_line\<close> and the outline functions are modelled in double precision, since what
  they do depends on it: every sum, difference, product, quotient and square root is
  rounded to the nearest double, ties to even, and overflows to an infinity. \<open>rd x\<close> is the
  double nearest to the real \<open>x\<close>: with \<open>e\<close> the binary exponent of \<open>x\<close> (at least \<open>-1022\<close>,
  where the subnormal numbers begin) the doubles around \<open>x\<close> are the integer multiples of
  \<open>2 ^ (e - 52)\<close>, and a result of magnitude \<open>2 ^ 1024\<close> or more is an infinity. Zero is
  taken as \<open>+0\<close>. \<open>tenth\<close> is the value of the literal \<open>0.1\<close>.
\<close>

definition round_even :: "real \<Rightarrow> int" where
  "round_even q =
     (let f = \<lfloor>q\<rfloor>; d = q - of_int f
      in if d < 1 / 2 then f else if 1 / 2 < d then f + 1 else if even f then f else f + 1)"

definition dbl_exp :: "real \<Rightarrow> int" where
  "dbl_exp x = max \<lfloor>log 2 \<bar>x\<bar>\<rfloor> (- 1022)"

definition rd :: "real \<Rightarrow> jsnum" where
  "rd x =
     (if x = 0 then Fin 0
      else let u = 2 powi (dbl_exp x - 52);
               v = of_int (round_even (x / u)) * u
           in if 2 ^ 1024 \<le> \<bar>v\<bar> then (if 0 < x then PInf else NInf) else Fin v)"

fun dadd :: "jsnum \<Rightarrow> jsnum \<Rightarrow> jsnum" where
  "dadd (Fin a) (Fin b) = rd (a + b)"
| "dadd NaN _ = NaN"
| "dadd _ NaN = NaN"
| "dadd PInf NInf = NaN"
| "dadd NInf PInf = NaN"
| "dadd PInf _ = PInf"
| "dadd _ PInf = PInf"
| "dadd NInf _ = NInf"
| "dadd _ NInf = NInf"

fun dsub :: "jsnum \<Rightarrow> jsnum \<Rightarrow> jsnum" where
  "dsub (Fin a) (Fin b) = rd (a - b)"
| "dsub NaN _ = NaN"
| "dsub _ NaN = NaN"
| "dsub PInf PInf = NaN"
| "dsub NInf NInf = NaN"
| "dsub PInf _ = PInf"
| "dsub _ PInf = NInf"
| "dsub NInf _ = NInf"
| "dsub _ NInf = PInf"

fun dmul :: "jsnum \<Rightarrow> jsnum \<Rightarrow> jsnum" where
  "dmul (Fin a) (Fin b) = rd (a * b)"
| "dmul NaN _ = NaN"
| "dmul _ NaN = NaN"
| "dmul (Fin a) PInf = (if a = 0 then NaN else if 0 < a then PInf else NInf)"
| "dmul (Fin a) NInf = (if a = 0 then NaN else if 0 < a then NInf else PInf)"
| "dmul PInf (Fin b) = (if b = 0 then NaN else if 0 < b then PInf else NInf)"
| "dmul NInf (Fin b) = (if b = 0 then NaN else if 0 < b then NInf else PInf)"
| "dmul PInf PInf = PInf"
| "dmul NInf NInf = PInf"
| "dmul PInf NInf = NInf"
| "dmul NInf PInf = NInf"

fun ddiv :: "jsnum \<Rightarrow> jsnum \<Rightarrow> jsnum" where
  "ddiv (Fin a) (Fin b) =
     (if b \<noteq> 0 then rd (a / b)
      else if a = 0 then NaN
      else if 0 < a then PInf else NInf)"
| "ddiv NaN _ = NaN"
| "ddiv _ NaN = NaN"
| "ddiv (Fin a) PInf = Fin 0"
| "ddiv (Fin a) NInf = Fin 0"
| "ddiv PInf (Fin b) = (if 0 \<le> b then PInf else NInf)"
| "ddiv NInf (Fin b) = (if 0 \<le> b then NInf else PInf)"
| "ddiv PInf PInf = NaN"
| "ddiv PInf NInf = NaN"
| "ddiv NInf PInf = NaN"
| "ddiv NInf NInf = NaN"

fun dsqrt :: "jsnum \<Rightarrow> jsnum" where
  "dsqrt (Fin a) = (if a < 0 then NaN else rd (sqrt a))"
| "dsqrt PInf = PInf"
| "dsqrt NInf = NaN"
| "dsqrt NaN = NaN"

definition tenth :: real where
  "tenth = 7205759403792794 / 2 ^ 56"

text \<open>
  A loop \<open>for (let i = a; i < n; i++) body\<close> whose counter and bound are doubles. The loop
  need not end: the bound may be \<open>Infinity\<close>, and a counter that has reached \<open>2 ^ 53\<close> is
  not changed by \<open>i++\<close>. \<open>None\<close> is the loop that never ends.
\<close>

partial_function (option) dfor :: "jsnum \<Rightarrow> jsnum \<Rightarrow> (jsnum \<Rightarrow> 's \<Rightarrow> 's) \<Rightarrow> 's \<Rightarrow> 's option" where
  "dfor i n body s =
     (if js_less i n then dfor (dadd i (Fin 1)) n body (body i s) else Some s)"

section \<open>Resources and the pixel interface\<close>

type_synonym rgb = "int \<times> int \<times> int"

record resource =
  width :: int
  height :: int
  pixels :: "int \<times> int \<Rightarrow> rgb"

fun in_bounds :: "resource \<Rightarrow> jsnum \<Rightarrow> jsnum \<Rightarrow> bool" where
  "in_bounds res (Fin x) (Fin y) =
     (0 \<le> x \<and> x < of_int (width res) \<and> 0 \<le> y \<and> y < of_int (height res))"
| "in_bounds res _ _ = False"

fun cell :: "jsnum \<Rightarrow> jsnum \<Rightarrow> int \<times> int" where
  "cell (Fin x) (Fin y) = (\<lfloor>x\<rfloor>, \<lfloor>y\<rfloor>)"
| "cell _ _ = (0, 0)"

text \<open>
  Modelled from the spec: \<open>bmp_resource_set_pixel\<close> and \<open>bmp_resource_get_pixel\<close> are
  called by every plot function but defined elsewhere in the repository. The spec gives
  \<open>set_pixel(buffer, x, y, r, g, b)\<close> as "a no-op if (x,y) is out of bounds, otherwise
  overwrites the channel triple", \<open>get_pixel(buffer, x, y)\<close> as "defined only for in-bounds
  (x,y)", in bounds meaning \<open>[0,width) x [0,height)\<close>, and a read after a write at the same
  coordinate as returning the written triple exactly. A coordinate that is in bounds but
  not integral addresses the grid cell that contains it; a read out of bounds has no
  value (\<open>None\<close>), and the caller's indexing of the missing triple is then an error.
\<close>

definition bmp_resource_set_pixel ::
  "resource \<Rightarrow> jsnum \<Rightarrow> jsnum \<Rightarrow> int \<Rightarrow> int \<Rightarrow> int \<Rightarrow> resource" where
  "bmp_resource_set_pixel res x y r g b =
     (if in_bounds res x y then res\<lparr>pixels := (pixels res)(cell x y := (r, g, b))\<rparr> else res)"

definition bmp_resource_get_pixel :: "resource \<Rightarrow> jsnum \<Rightarrow> jsnum \<Rightarrow> rgb option" where
  "bmp_resource_get_pixel res x y =
     (if in_bounds res x y then Some (pixels res (cell x y)) else None)"

section \<open>The counting loop\<close>

text \<open>
  Every loop of the source has the shape \<open>for (let i = a; i < n; i++) body\<close>. The counter
  and the bound are numbers; \<open>body i\<close> transforms the state the loop works on. Here the
  counter is exact. It is the counter of \<open>dfor\<close> as long as that one starts at an integer
  and the bound is at most \<open>2 ^ 53\<close>, which is the case in rectangles at pixel coordinates,
  in the clear, the copy and the text, where the bounds are dimensions of a resource.
\<close>

function for_loop :: "real \<Rightarrow> real \<Rightarrow> (real \<Rightarrow> 's \<Rightarrow> 's) \<Rightarrow> 's \<Rightarrow> 's" where
  "for_loop i n body s = (if i < n then for_loop (i + 1) n body (body i s) else s)"
  by pat_completeness auto
termination
proof (relation "measure (\<lambda>(i, n, body, s). nat \<lceil>n - i\<rceil>)")
  show "wf (measure (\<lambda>(i, n, body, s). nat \<lceil>n - i\<rceil>))"
    by simp
next
  fix i n :: real and body :: "real \<Rightarrow> 's \<Rightarrow> 's" and s :: 's
  assume "i < n"
  then have "0 < \<lceil>n - i\<rceil>" and "\<lceil>n - (i + 1)\<rceil> = \<lceil>n - i\<rceil> - 1"
    by linarith+
  then show "((i + 1, n, body, body i s), (i, n, body, s))
               \<in> measure (\<lambda>(i, n, body, s). nat \<lceil>n - i\<rceil>)"
    by simp
qed

declare for_loop.simps [simp del]

section \<open>Rectangles and clearing\<close>

text \<open>\<open>bmp_plot_rect\<close>, lines 29 to 46. The function mutates the resource and returns true.\<close>

definition bmp_plot_rect ::
  "resource \<Rightarrow> real \<Rightarrow> real \<Rightarrow> real \<Rightarrow> real \<Rightarrow> int \<Rightarrow> int \<Rightarrow> int \<Rightarrow> bool \<times> resource" where
  "bmp_plot_rect resource x y w h r g b =
     (True,
      for_loop y (h + y) (\<lambda>y2.
        for_loop x (w + x) (\<lambda>x2 res.
          if x2 < of_int (width res) \<and> y2 < of_int (height res)
          then bmp_resource_set_pixel res (Fin x2) (Fin y2) r g b
          else res))
        resource)"




section \<open>Lines\<close>

text \<open>
  \<open>bmp_plot_line\<close>, lines 84 to 116, in double precision. The end points may be any
  numbers, the outline functions computing them; the precision \<open>p\<close> is a finite number.
  The loop state is the running point \<open>(x, y)\<close> and the resource. \<open>samples\<close> is a ghost
  field: it records the point of every iteration, in order; a sample is handed to
  \<open>bmp_resource_set_pixel\<close> when it passes the guard of lines 107 and 108. The function has
  no error; \<open>None\<close> is the call that never returns.
\<close>

record line_state =
  cur_x :: jsnum
  cur_y :: jsnum
  target :: resource
  samples :: "(jsnum \<times> jsnum) list"

definition line_guard :: "resource \<Rightarrow> jsnum \<times> jsnum \<Rightarrow> bool" where
  "line_guard res pt \<longleftrightarrow>
     js_less (fst pt) (Fin (of_int (width res))) \<and> js_less (snd pt) (Fin (of_int (height res)))"

definition line_step :: "jsnum \<Rightarrow> jsnum \<Rightarrow> int \<Rightarrow> int \<Rightarrow> int \<Rightarrow> line_state \<Rightarrow> line_state" where
  "line_step ax ay r g b s =
     \<lparr>cur_x = dadd (cur_x s) ax,
      cur_y = dadd (cur_y s) ay,
      target =
        (if line_guard (target s) (cur_x s, cur_y s)
         then bmp_resource_set_pixel (target s) (cur_x s) (cur_y s) r g b
         else target s),
      samples = samples s @ [(cur_x s, cur_y s)]\<rparr>"

text \<open>Lines 95 to 98: the length \<open>l\<close>.\<close>

definition line_length :: "jsnum \<Rightarrow> jsnum \<Rightarrow> jsnum \<Rightarrow> jsnum \<Rightarrow> real \<Rightarrow> jsnum" where
  "line_length x1 y1 x2 y2 p =
     (let p = clamp p tenth 2;
          x = dsub x2 x1;
          y = dsub y2 y1
      in dmul (dsqrt (dadd (dmul x x) (dmul y y))) (Fin p))"

definition line_run ::
  "resource \<Rightarrow> jsnum \<Rightarrow> jsnum \<Rightarrow> jsnum \<Rightarrow> jsnum \<Rightarrow> int \<Rightarrow> int \<Rightarrow> int \<Rightarrow> real \<Rightarrow>
     line_state option" where
  "line_run resource x1 y1 x2 y2 r g b p =
     (let l = line_length x1 y1 x2 y2 p;
          ax = ddiv (dsub x2 x1) l;
          ay = ddiv (dsub y2 y1) l
      in dfor (Fin 0) l (\<lambda>i. line_step ax ay r g b)
           \<lparr>cur_x = x1, cur_y = y1, target = resource, samples = []\<rparr>)"

definition bmp_plot_line ::
  "resource \<Rightarrow> jsnum \<Rightarrow> jsnum \<Rightarrow> jsnum \<Rightarrow> jsnum \<Rightarrow> int \<Rightarrow> int \<Rightarrow> int \<Rightarrow> real \<Rightarrow>
     (bool \<times> resource) option" where
  "bmp_plot_line resource x1 y1 x2 y2 r g b p =
     map_option (\<lambda>s. (True, target s)) (line_run resource x1 y1 x2 y2 r g b p)"

definition line_samples ::
  "resource \<Rightarrow> jsnum \<Rightarrow> jsnum \<Rightarrow> jsnum \<Rightarrow> jsnum \<Rightarrow> int \<Rightarrow> int \<Rightarrow> int \<Rightarrow> real \<Rightarrow>
     (jsnum \<times> jsnum) list option" where
  "line_samples resource x1 y1 x2 y2 r g b p =
     map_option samples (line_run resource x1 y1 x2 y2 r g b p)"

section \<open>Outlines from point tables\<close>

text \<open>
  The six outline functions, lines 314 to 613, share one loop: it joins consecutive points
  of a table, scaled from the 512 by 512 space, by \<open>bmp_plot_line\<close>. \<open>n\<close> is the bound the
  function writes in its loop head. Indexing the table outside its range yields no point,
  and reading a coordinate of the missing point is an error. \<open>None\<close> is an outline function
  that does not return: by that error, or because a call of \<open>bmp_plot_line\<close> never returns.
  The arguments \<open>x, y, w, h\<close> are finite doubles. \<open>last_pt\<close> and \<open>curr_pt\<close> are the
  source's \<open>last\<close> and \<open>curr\<close>.
\<close>

definition point_at :: "(real \<times> real) list \<Rightarrow> real \<Rightarrow> (real \<times> real) option" where
  "point_at points i =
     (if 0 \<le> i \<and> i = of_int \<lfloor>i\<rfloor> \<and> nat \<lfloor>i\<rfloor> < length points
      then Some (points ! nat \<lfloor>i\<rfloor>) else None)"

text \<open>\<open>scaled a w x\<close> is the source's \<open>a / 512 * w + x\<close>.\<close>

definition scaled :: "real \<Rightarrow> real \<Rightarrow> real \<Rightarrow> jsnum" where
  "scaled a w x = dadd (dmul (ddiv (Fin a) (Fin 512)) (Fin w)) (Fin x)"

definition outline_step ::
  "(real \<times> real) list \<Rightarrow> real \<Rightarrow> real \<Rightarrow> real \<Rightarrow> real \<Rightarrow> int \<Rightarrow> int \<Rightarrow> int \<Rightarrow> real \<Rightarrow>
     real \<Rightarrow> resource option \<Rightarrow> resource option" where
  "outline_step points x y w h r g b p i s =
     (case s of
        None \<Rightarrow> None
      | Some res \<Rightarrow>
          (case point_at points (i - 1) of
             None \<Rightarrow> None
           | Some last_pt \<Rightarrow>
               (case point_at points i of
                  None \<Rightarrow> None
                | Some curr_pt \<Rightarrow>
                    let lx = scaled (fst last_pt) w x;
                        ly = scaled (snd last_pt) h y;
                        cx = scaled (fst curr_pt) w x;
                        cy = scaled (snd curr_pt) h y
                    in map_option snd (bmp_plot_line res lx ly cx cy r g b p))))"














section \<open>Shared resources\<close>

text \<open>
  \<open>bmp_plot_resource\<close> and \<open>bmp_plot_text\<close> take two resources, and a caller may pass the
  same object twice. Resources therefore live in a store, addressed by reference; a write
  through one reference is seen through every other reference to the same cell. A
  reference handed to a function is a valid address of the store.
\<close>

type_synonym ref = nat
type_synonym store = "resource list"

text \<open>
  \<open>structuredClone\<close> is the platform's deep copy: a new object with the same contents that
  shares nothing with the original. It gets a cell of its own at the end of the store.
\<close>

definition structuredClone :: "store \<Rightarrow> ref \<Rightarrow> store \<times> ref" where
  "structuredClone st c = (st @ [st ! c], length st)"

section \<open>Copying a resource\<close>

text \<open>Lines 139 to 147, once for the width and once for the height.\<close>

definition copy_extent :: "real \<Rightarrow> int \<Rightarrow> real" where
  "copy_extent w d =
     (let w = clamp w (- 1) (of_int d)
      in if w = - 1 then of_int d else w)"

text \<open>
  The body of the loop nest, lines 151 to 161. \<open>None\<close> is the error raised when the triple of
  a read out of bounds is indexed.
\<close>

definition resource_pixel ::
  "ref \<Rightarrow> ref \<Rightarrow> real \<Rightarrow> real \<Rightarrow> real \<Rightarrow> real \<Rightarrow> store option \<Rightarrow> store option" where
  "resource_pixel resource_p resource_c x y x1 y1 s =
     (case s of
        None \<Rightarrow> None
      | Some st \<Rightarrow>
          if x1 + x < of_int (width (st ! resource_p)) \<and> y1 + y < of_int (height (st ! resource_p))
          then (case bmp_resource_get_pixel (st ! resource_c) (Fin x1) (Fin y1) of
                  None \<Rightarrow> None
                | Some (c0, c1, c2) \<Rightarrow>
                    Some (st[resource_p :=
                      bmp_resource_set_pixel (st ! resource_p) (Fin (x1 + x)) (Fin (y1 + y)) c0 c1 c2]))
          else Some st)"

text \<open>
  \<open>bmp_plot_resource\<close>, lines 129 to 166. The local name \<open>resource_c\<close> is rebound to the
  clone in line 137; the clone is dropped when the function returns.
\<close>

definition bmp_plot_resource ::
  "store \<Rightarrow> ref \<Rightarrow> ref \<Rightarrow> real \<Rightarrow> real \<Rightarrow> real \<Rightarrow> real \<Rightarrow> (bool \<times> store) option" where
  "bmp_plot_resource st resource_p resource_c x y w h =
     (let (st1, resource_c) = structuredClone st resource_c;
          w = copy_extent w (width (st1 ! resource_c));
          h = copy_extent h (height (st1 ! resource_c))
      in map_option (\<lambda>st2. (True, take (length st) st2))
           (for_loop 0 w (\<lambda>x1.
              for_loop 0 h (\<lambda>y1. resource_pixel resource_p resource_c x y x1 y1))
            (Some st1)))"

text \<open>
  The rule of the spec for the copied extent, in its words: "if the caller passes -1 for
  either dimension, it defaults to the source's full corresponding dimension; otherwise the
  requested dimension is clamped to [-1, source_dimension]".
\<close>

definition spec_copy_extent :: "real \<Rightarrow> int \<Rightarrow> real" where
  "spec_copy_extent w d = (if w = - 1 then of_int d else clamp w (- 1) (of_int d))"

section \<open>Text\<close>

type_synonym js_string = "nat list"

text \<open>
  A string is the list of its character codes, as \<open>charCodeAt\<close> returns them. The values
  computed before the character loop and the arguments that never change are kept in
  \<open>text_env\<close>; the loop state is the cursor and the store. \<open>glyphs\<close> is a ghost field: it
  records the cursor at which each glyph is drawn, in order.
\<close>

record text_env =
  env_p :: ref
  env_c :: ref
  x_offset_start :: real
  env_wrap :: bool
  font_width :: real
  font_height :: real
  font_chars :: jsnum
  env_fg :: rgb
  env_bg :: rgb

record text_state =
  x_offset :: real
  y_offset :: real
  heap :: store
  glyphs :: "(real \<times> real) list"

text \<open>
  Lines 251 to 278: the colour a glyph pixel is drawn with, \<open>None\<close> where the source
  continues with the next pixel. The arguments after the atlas colour are
  \<open>fr, fg, fb, br, bg, bb\<close>.
\<close>

definition glyph_color :: "rgb \<Rightarrow> int \<Rightarrow> int \<Rightarrow> int \<Rightarrow> int \<Rightarrow> int \<Rightarrow> int \<Rightarrow> rgb option" where
  "glyph_color pixel_c fr fg fb br bg bb =
     (case pixel_c of (c0, c1, c2) \<Rightarrow>
        if c0 = 255 \<and> c1 = 255 \<and> c2 = 255
        then (if fr \<noteq> - 1 \<and> fg \<noteq> - 1 \<and> fb \<noteq> - 1 then Some (fr, fg, fb) else None)
        else if c0 = 0 \<and> c1 = 0 \<and> c2 = 0
        then (if br \<noteq> - 1 \<and> bg \<noteq> - 1 \<and> bg \<noteq> - 1 then Some (br, bg, bb) else None)
        else Some (c0, c1, c2))"

definition text_color :: "text_env \<Rightarrow> rgb \<Rightarrow> rgb option" where
  "text_color e pixel_c =
     glyph_color pixel_c (fst (env_fg e)) (fst (snd (env_fg e))) (snd (snd (env_fg e)))
       (fst (env_bg e)) (fst (snd (env_bg e))) (snd (snd (env_bg e)))"

text \<open>Lines 281 to 290: the write of a glyph pixel to the parent, clipped as the source clips it.\<close>

definition text_write :: "text_env \<Rightarrow> real \<Rightarrow> real \<Rightarrow> real \<Rightarrow> real \<Rightarrow> rgb \<Rightarrow> store \<Rightarrow> store" where
  "text_write e xo yo ly lx col st =
     (if xo + lx < of_int (width (st ! env_p e)) \<and> yo + ly < of_int (height (st ! env_p e))
      then st[env_p e :=
             bmp_resource_set_pixel (st ! env_p e) (Fin (xo + lx)) (Fin (yo + ly))
               (fst col) (fst (snd col)) (snd (snd col))]
      else st)"

text \<open>The body of the pixel loop nest, lines 245 to 290.\<close>

definition text_pixel ::
  "text_env \<Rightarrow> real \<Rightarrow> real \<Rightarrow> jsnum \<Rightarrow> real \<Rightarrow> real \<Rightarrow> store option \<Rightarrow> store option" where
  "text_pixel e xo yo char_x_offset ly lx s =
     (case s of
        None \<Rightarrow> None
      | Some st \<Rightarrow>
          (case bmp_resource_get_pixel (st ! env_c e) (js_add (Fin lx) char_x_offset) (Fin ly) of
             None \<Rightarrow> None
           | Some pixel_c \<Rightarrow>
               (case text_color e pixel_c of
                  None \<Rightarrow> Some st
                | Some col \<Rightarrow> Some (text_write e xo yo ly lx col st))))"

text \<open>The pixel loop nest of one glyph, lines 242 to 292.\<close>

definition draw_glyph :: "text_env \<Rightarrow> real \<Rightarrow> real \<Rightarrow> jsnum \<Rightarrow> store \<Rightarrow> store option" where
  "draw_glyph e xo yo char_x_offset st =
     for_loop 0 (font_height e) (\<lambda>ly.
       for_loop 0 (font_width e) (\<lambda>lx. text_pixel e xo yo char_x_offset ly lx))
     (Some st)"

text \<open>The cursor move of a newline (lines 226, 227) and of a wrap (lines 238, 239).\<close>

definition next_row :: "text_env \<Rightarrow> text_state \<Rightarrow> text_state" where
  "next_row e s = s\<lparr>x_offset := x_offset_start e, y_offset := y_offset s + font_height e\<rparr>"

text \<open>One turn of the character loop, lines 221 to 294.\<close>

definition text_char :: "text_env \<Rightarrow> nat \<Rightarrow> text_state \<Rightarrow> text_state option" where
  "text_char e char_code s =
     (let char_x_offset = Fin ((of_nat char_code - 32) * font_width e)
      in if char_code = 10 \<or> char_code = 13 then Some (next_row e s)
         else
           let char_x_offset =
                 (if char_code < 0x20 \<or> 0x7E < char_code
                  then js_mul (Fin (font_width e)) (js_add (font_chars e) (Fin (- 1)))
                  else char_x_offset);
               s = (if env_wrap e \<and>
                       of_int (width (heap s ! env_p e)) < x_offset s + font_width e
                    then next_row e s else s)
           in case draw_glyph e (x_offset s) (y_offset s) char_x_offset (heap s) of
                None \<Rightarrow> None
              | Some st \<Rightarrow>
                  Some (s\<lparr>heap := st,
                          glyphs := glyphs s @ [(x_offset s, y_offset s)],
                          x_offset := x_offset s + font_width e\<rparr>))"

fun text_loop :: "text_env \<Rightarrow> js_string \<Rightarrow> text_state \<Rightarrow> text_state option" where
  "text_loop e [] s = Some s"
| "text_loop e (char_code # rest) s =
     (case text_char e char_code s of
        None \<Rightarrow> None
      | Some s' \<Rightarrow> text_loop e rest s')"

text \<open>Lines 201 to 218: the values fixed before the loop.\<close>

definition text_setup ::
  "store \<Rightarrow> ref \<Rightarrow> ref \<Rightarrow> real \<Rightarrow> bool \<Rightarrow> rgb \<Rightarrow> rgb \<Rightarrow> text_env" where
  "text_setup st resource_p resource_c x wrap fg bg =
     (let fw = of_int (width (st ! resource_c)) / 96
      in \<lparr>env_p = resource_p, env_c = resource_c, x_offset_start = x, env_wrap = wrap,
          font_width = fw,
          font_height = of_int (height (st ! resource_c)),
          font_chars = js_div (of_int (width (st ! resource_c))) fw,
          env_fg = fg, env_bg = bg\<rparr>)"

definition text_run ::
  "store \<Rightarrow> ref \<Rightarrow> ref \<Rightarrow> real \<Rightarrow> real \<Rightarrow> js_string \<Rightarrow> bool \<Rightarrow> rgb \<Rightarrow> rgb \<Rightarrow> text_state option" where
  "text_run st resource_p resource_c x y text wrap fg bg =
     text_loop (text_setup st resource_p resource_c x wrap fg bg) text
       \<lparr>x_offset = x, y_offset = y, heap = st, glyphs = []\<rparr>"

text \<open>
  \<open>bmp_plot_text\<close>, lines 186 to 298; the foreground \<open>(fr, fg, fb)\<close> and the background
  \<open>(br, bg, bb)\<close> are passed as triples.
\<close>

definition bmp_plot_text ::
  "store \<Rightarrow> ref \<Rightarrow> ref \<Rightarrow> real \<Rightarrow> real \<Rightarrow> js_string \<Rightarrow> bool \<Rightarrow> rgb \<Rightarrow> rgb \<Rightarrow> (bool \<times> store) option" where
  "bmp_plot_text st resource_p resource_c x y text wrap fg bg =
     map_option (\<lambda>s. (True, heap s)) (text_run st resource_p resource_c x y text wrap fg bg)"

section \<open>Invariants and derived notions\<close>

text \<open>
  \<open>paints I img A col f\<close>: on states that satisfy \<open>I\<close>, the step \<open>f\<close> keeps \<open>I\<close>, gives the
  pixels in \<open>A\<close> the colour \<open>col\<close> assigns to them and leaves every other pixel of the image
  \<open>img\<close> as it was.
\<close>

definition paints ::
  "('s \<Rightarrow> bool) \<Rightarrow> ('s \<Rightarrow> int \<times> int \<Rightarrow> rgb) \<Rightarrow> (int \<times> int) set \<Rightarrow> (int \<times> int \<Rightarrow> rgb) \<Rightarrow>
     ('s \<Rightarrow> 's) \<Rightarrow> bool" where
  "paints I img A col f \<longleftrightarrow>
     (\<forall>s. I s \<longrightarrow> I (f s) \<and> (\<forall>q. img (f s) q = (if q \<in> A then col q else img s q)))"

definition has_dims :: "int \<Rightarrow> int \<Rightarrow> resource \<Rightarrow> bool" where
  "has_dims W H res \<longleftrightarrow> width res = W \<and> height res = H"

text \<open>
  The invariant of the copy loop nest: the store has grown by the clone, the clone still holds
  the snapshot \<open>S\<close>, the destination has kept its dimensions and no other resource has
  changed. \<open>dest_img\<close> is the image of the destination.
\<close>

definition copying :: "store \<Rightarrow> ref \<Rightarrow> resource \<Rightarrow> store option \<Rightarrow> bool" where
  "copying st0 p S s \<longleftrightarrow>
     (\<exists>st. s = Some st \<and> length st = Suc (length st0) \<and> st ! length st0 = S \<and>
           width (st ! p) = width (st0 ! p) \<and> height (st ! p) = height (st0 ! p) \<and>
           (\<forall>r < length st0. r \<noteq> p \<longrightarrow> st ! r = st0 ! r))"

definition dest_img :: "ref \<Rightarrow> store option \<Rightarrow> int \<times> int \<Rightarrow> rgb" where
  "dest_img p s = pixels (the s ! p)"

text \<open>
  What the loop of \<open>bmp_plot_line\<close> does with one sample; the point reached from \<open>pt\<close>
  after \<open>k\<close> rounded additions of the step \<open>(ax, ay)\<close>; the condition under which the loop
  of \<open>bmp_plot_line\<close> ends (the length is \<open>NaN\<close> or at most \<open>2 ^ 53\<close>); and the length of
  the segment that an outline function draws in turn \<open>k\<close> of its loop.
\<close>

definition plot_sample :: "int \<Rightarrow> int \<Rightarrow> int \<Rightarrow> jsnum \<times> jsnum \<Rightarrow> resource \<Rightarrow> resource" where
  "plot_sample r g b pt res =
     (if line_guard res pt then bmp_resource_set_pixel res (fst pt) (snd pt) r g b else res)"

definition line_walk :: "jsnum \<Rightarrow> jsnum \<Rightarrow> jsnum \<times> jsnum \<Rightarrow> nat \<Rightarrow> jsnum \<times> jsnum" where
  "line_walk ax ay pt k = ((\<lambda>q. (dadd (fst q) ax, dadd (snd q) ay)) ^^ k) pt"

definition line_ends :: "jsnum \<Rightarrow> bool" where
  "line_ends l \<longleftrightarrow> \<not> js_less (Fin (2 ^ 53)) l"


text \<open>
  The number of samples a line of length \<open>l\<close> takes when its loop ends, and the condition
  under which an outline function returns: each of the segments \<open>1, \<dots>, n - 1\<close> ends.
\<close>

definition sample_count :: "jsnum \<Rightarrow> nat" where
  "sample_count l = (case l of Fin v \<Rightarrow> nat \<lceil>v\<rceil> | _ \<Rightarrow> 0)"


text \<open>
  \<open>same_dims st0 st\<close>: the store \<open>st\<close> has the cells of \<open>st0\<close>, each with the dimensions it
  has in \<open>st0\<close>. \<open>cursor_step\<close> is what one turn of the character loop (lines 225 to 240
  and 294) does to the cursor and to the list of glyph origins, \<open>W\<close> being the width of the
  parent.
\<close>

definition same_dims :: "store \<Rightarrow> store \<Rightarrow> bool" where
  "same_dims st0 st \<longleftrightarrow>
     length st = length st0 \<and>
     (\<forall>r < length st0. width (st ! r) = width (st0 ! r) \<and> height (st ! r) = height (st0 ! r))"

definition cursor_step ::
  "text_env \<Rightarrow> real \<Rightarrow> nat \<Rightarrow> real \<times> real \<times> (real \<times> real) list \<Rightarrow> real \<times> real \<times> (real \<times> real) list" where
  "cursor_step e W char_code cur =
     (case cur of (xo, yo, gl) \<Rightarrow>
        if char_code = 10 \<or> char_code = 13 then (x_offset_start e, yo + font_height e, gl)
        else if env_wrap e \<and> W < xo + font_width e
        then (x_offset_start e + font_width e, yo + font_height e,
              gl @ [(x_offset_start e, yo + font_height e)])
        else (xo + font_width e, yo, gl @ [(xo, yo)]))"

text \<open>
  The invariant of the pixel loop nest of a glyph: no read has failed and the store has kept
  its shape. \<open>rows_inv x fw\<close> is the invariant of the cursor when the parent is narrower
  than two glyphs: every glyph so far was drawn at the anchor's x, the y-origins increase
  strictly, and the cursor is either at the anchor's x below every glyph or one glyph to
  the right of it.
\<close>

definition drawing :: "store \<Rightarrow> store option \<Rightarrow> bool" where
  "drawing st0 s \<longleftrightarrow> (\<exists>st. s = Some st \<and> same_dims st0 st)"

definition rows_inv :: "real \<Rightarrow> real \<Rightarrow> real \<times> real \<times> (real \<times> real) list \<Rightarrow> bool" where
  "rows_inv x fw cur \<longleftrightarrow>
     (case cur of (xo, yo, gl) \<Rightarrow>
        (\<forall>g \<in> set gl. fst g = x \<and> snd g \<le> yo) \<and>
        sorted_wrt (<) (map snd gl) \<and>
        (xo = x \<and> (\<forall>g \<in> set gl. snd g < yo) \<or> xo = x + fw))"

text \<open>
  The invariant of the pixel loop nest of a glyph when the parent and the atlas are
  different resources: the parent has kept its dimensions and no other resource has
  changed. \<open>glyph_image atlas fg bg W H K CX X Y old\<close> is the image \<open>old\<close>, of width \<open>W\<close>
  and height \<open>H\<close>, after the glyph cell that starts at column \<open>CX\<close> of the atlas and is
  \<open>K\<close> wide has been drawn with its origin at \<open>(X, Y)\<close>: a pixel of the cell that lies in
  the image has the colour \<open>glyph_color\<close> gives its atlas pixel, and is as before where
  \<open>glyph_color\<close> skips; every other pixel is as before.
\<close>

definition glyph_inv :: "store \<Rightarrow> ref \<Rightarrow> store option \<Rightarrow> bool" where
  "glyph_inv st0 p s \<longleftrightarrow>
     (\<exists>st. s = Some st \<and> length st = length st0 \<and>
           width (st ! p) = width (st0 ! p) \<and> height (st ! p) = height (st0 ! p) \<and>
           (\<forall>r < length st0. r \<noteq> p \<longrightarrow> st ! r = st0 ! r))"

definition glyph_image ::
  "resource \<Rightarrow> rgb \<Rightarrow> rgb \<Rightarrow> int \<Rightarrow> int \<Rightarrow> int \<Rightarrow> int \<Rightarrow> int \<Rightarrow> int \<Rightarrow>
     (int \<times> int \<Rightarrow> rgb) \<Rightarrow> int \<times> int \<Rightarrow> rgb" where
  "glyph_image atlas fg bg W H K CX X Y old q =
     (case q of (i, j) \<Rightarrow>
        if X \<le> i \<and> i < X + K \<and> Y \<le> j \<and> j < Y + height atlas \<and>
           0 \<le> i \<and> i < W \<and> 0 \<le> j \<and> j < H
        then (case glyph_color (pixels atlas (i - X + CX, j - Y))
                     (fst fg) (fst (snd fg)) (snd (snd fg)) (fst bg) (fst (snd bg)) (snd (snd bg)) of
                None \<Rightarrow> old q
              | Some col \<Rightarrow> col)
        else old q)"

section \<open>Loop lemmas\<close>

lemma for_loop_done: "\<not> i < n \<Longrightarrow> for_loop i n body s = s"
  by (simp add: for_loop.simps)

lemma for_loop_step: "i < n \<Longrightarrow> for_loop i n body s = for_loop (i + 1) n body (body i s)"
  by (subst for_loop.simps) simp

text \<open>A loop whose counter starts at an integer visits the integers below the bound.\<close>

lemma for_loop_upto:
  "for_loop (of_int a) n body s = fold (\<lambda>k. body (of_int k)) [a..\<lceil>n\<rceil> - 1] s"
proof (induction "nat (\<lceil>n\<rceil> - a)" arbitrary: a s)
  case 0
  then have "\<not> of_int a < n"
    by (simp add: less_ceiling_iff [symmetric])
  moreover from 0 have "[a..\<lceil>n\<rceil> - 1] = []"
    by simp
  ultimately show ?case
    by (simp add: for_loop_done)
next
  case (Suc m)
  then have lt: "a < \<lceil>n\<rceil>"
    by linarith
  then have "of_int a < n"
    by (simp add: less_ceiling_iff)
  then have "for_loop (of_int a) n body s
               = for_loop (of_int (a + 1)) n body (body (of_int a) s)"
    by (simp add: for_loop_step)
  also have "\<dots> = fold (\<lambda>k. body (of_int k)) [a + 1..\<lceil>n\<rceil> - 1] (body (of_int a) s)"
    using Suc by (intro Suc.hyps(1)) linarith
  also have "\<dots> = fold (\<lambda>k. body (of_int k)) [a..\<lceil>n\<rceil> - 1] s"
    using lt by (simp add: upto_rec1 [of a "\<lceil>n\<rceil> - 1"])
  finally show ?case .
qed

lemma for_loop_invariant:
  "(\<And>k s. I s \<Longrightarrow> I (body k s)) \<Longrightarrow> I s \<Longrightarrow> I (for_loop i n body s)"
proof (induction i n body s rule: for_loop.induct)
  case (1 i n body s)
  show ?case
  proof (cases "i < n")
    case True
    have "I (body i s)"
      using "1.prems"(2) by (rule "1.prems"(1))
    with True "1.IH" "1.prems"(1) have "I (for_loop (i + 1) n body (body i s))"
      by blast
    with True show ?thesis
      by (simp add: for_loop_step)
  next
    case False
    then show ?thesis
      using "1.prems"(2) by (simp add: for_loop_done)
  qed
qed

section \<open>Painting lemmas\<close>

lemma paintsI:
  "(\<And>s. I s \<Longrightarrow> I (f s)) \<Longrightarrow>
   (\<And>s q. I s \<Longrightarrow> img (f s) q = (if q \<in> A then col q else img s q)) \<Longrightarrow>
   paints I img A col f"
  unfolding paints_def by blast

lemma paints_inv: "paints I img A col f \<Longrightarrow> I s \<Longrightarrow> I (f s)"
  unfolding paints_def by blast

lemma paints_img:
  "paints I img A col f \<Longrightarrow> I s \<Longrightarrow> img (f s) q = (if q \<in> A then col q else img s q)"
  unfolding paints_def by blast

lemma paints_fold:
  "(\<And>k. k \<in> set ks \<Longrightarrow> paints I img (A k) col (f k))
   \<Longrightarrow> paints I img (\<Union>k\<in>set ks. A k) col (fold f ks)"
proof (induction ks)
  case Nil
  show ?case by (rule paintsI) simp_all
next
  case (Cons k ks)
  have hd: "paints I img (A k) col (f k)"
    using Cons.prems by simp
  have tl: "paints I img (\<Union>k\<in>set ks. A k) col (fold f ks)"
    using Cons.prems by (intro Cons.IH) simp
  show ?case
  proof (rule paintsI)
    fix s assume s: "I s"
    have 1: "I (f k s)"
      using hd s by (rule paints_inv)
    show "I (fold f (k # ks) s)"
      using paints_inv [OF tl 1] by simp
    fix q
    have "img (fold f ks (f k s)) q
            = (if q \<in> (\<Union>k\<in>set ks. A k) then col q else img (f k s) q)"
      using tl 1 by (rule paints_img)
    moreover have "img (f k s) q = (if q \<in> A k then col q else img s q)"
      using hd s by (rule paints_img)
    ultimately show "img (fold f (k # ks) s) q
            = (if q \<in> (\<Union>k\<in>set (k # ks). A k) then col q else img s q)"
      by simp
  qed
qed

lemma paints_for_loop:
  assumes "\<And>k. a \<le> k \<Longrightarrow> of_int k < n \<Longrightarrow> paints I img (A k) col (body (of_int k))"
  shows "paints I img (\<Union>k\<in>{k. a \<le> k \<and> of_int k < n}. A k) col (for_loop (of_int a) n body)"
proof -
  have set: "set [a..\<lceil>n\<rceil> - 1] = {k. a \<le> k \<and> of_int k < n}"
    by (auto simp: less_ceiling_iff [symmetric])
  have "paints I img (\<Union>k\<in>set [a..\<lceil>n\<rceil> - 1]. A k) col
          (fold (\<lambda>k. body (of_int k)) [a..\<lceil>n\<rceil> - 1])"
  proof (rule paints_fold)
    fix k assume "k \<in> set [a..\<lceil>n\<rceil> - 1]"
    then have "a \<le> k" and "of_int k < n"
      unfolding set by simp_all
    then show "paints I img (A k) col (body (of_int k))"
      by (rule assms)
  qed
  moreover have "for_loop (of_int a) n body = fold (\<lambda>k. body (of_int k)) [a..\<lceil>n\<rceil> - 1]"
    by (rule ext) (rule for_loop_upto)
  ultimately show ?thesis
    unfolding set by simp
qed

lemma set_pixel_dims [simp]:
  "width (bmp_resource_set_pixel res x y r g b) = width res"
  "height (bmp_resource_set_pixel res x y r g b) = height res"
  by (simp_all add: bmp_resource_set_pixel_def)

lemma set_pixel_pixels:
  "pixels (bmp_resource_set_pixel res (Fin (of_int i)) (Fin (of_int j)) r g b) q =
     (if q = (i, j) \<and> 0 \<le> i \<and> i < width res \<and> 0 \<le> j \<and> j < height res
      then (r, g, b) else pixels res q)"
  by (simp add: bmp_resource_set_pixel_def)

lemma rect_pixel_paints:
  "paints (has_dims W H) pixels
     (if 0 \<le> i \<and> i < W \<and> 0 \<le> j \<and> j < H then {(i, j)} else {}) (\<lambda>q. (r, g, b))
     (\<lambda>res. if real_of_int i < of_int (width res) \<and> real_of_int j < of_int (height res)
            then bmp_resource_set_pixel res (Fin (of_int i)) (Fin (of_int j)) r g b
            else res)"
  by (auto simp: paints_def has_dims_def set_pixel_pixels)

lemma rect_paints:
  "paints (has_dims W H) pixels
     {(i, j). x \<le> i \<and> i < x + w \<and> y \<le> j \<and> j < y + h \<and> 0 \<le> i \<and> i < W \<and> 0 \<le> j \<and> j < H}
     (\<lambda>q. (r, g, b))
     (\<lambda>res. snd (bmp_plot_rect res (of_int x) (of_int y) (of_int w) (of_int h) r g b))"
proof -
  let ?P = "\<lambda>i j. if 0 \<le> i \<and> i < W \<and> 0 \<le> j \<and> j < H then {(i, j)} else {}"
  let ?row = "\<lambda>y2. for_loop (of_int x) (of_int w + of_int x) (\<lambda>x2 res.
          if x2 < of_int (width res) \<and> y2 < of_int (height res)
          then bmp_resource_set_pixel res (Fin x2) (Fin y2) r g b
          else res)"
  have row: "paints (has_dims W H) pixels (\<Union>i\<in>{i. x \<le> i \<and> real_of_int i < of_int w + of_int x}. ?P i j)
               (\<lambda>q. (r, g, b)) (?row (of_int j))" for j
    by (rule paints_for_loop) (rule rect_pixel_paints)
  have "paints (has_dims W H) pixels
          (\<Union>j\<in>{j. y \<le> j \<and> real_of_int j < of_int h + of_int y}.
             \<Union>i\<in>{i. x \<le> i \<and> real_of_int i < of_int w + of_int x}. ?P i j)
          (\<lambda>q. (r, g, b)) (for_loop (of_int y) (of_int h + of_int y) ?row)"
    by (rule paints_for_loop) (rule row)
  moreover have "(\<Union>j\<in>{j. y \<le> j \<and> real_of_int j < of_int h + of_int y}.
             \<Union>i\<in>{i. x \<le> i \<and> real_of_int i < of_int w + of_int x}. ?P i j)
        = {(i, j). x \<le> i \<and> i < x + w \<and> y \<le> j \<and> j < y + h \<and> 0 \<le> i \<and> i < W \<and> 0 \<le> j \<and> j < H}"
  proof -
    have "real_of_int k < of_int c + of_int d \<longleftrightarrow> k < d + c" for k c d :: int
      by linarith
    then show ?thesis
      by (auto split: if_splits)
  qed
  ultimately show ?thesis
    by (simp add: bmp_plot_rect_def)
qed

section \<open>Rectangles: the pixels written\<close>

text \<open>
  Claim C4. \<open>bmp_plot_rect\<close> at integer arguments keeps the dimensions of the buffer and
  gives the colour to exactly the pixels of \<open>[x, x+w) x [y, y+h)\<close> that lie inside the
  buffer; every other pixel keeps its value. On a cleared 10 by 10 buffer,
  \<open>bmp_plot_rect(res, 2, 2, 3, 3, 10, 20, 30)\<close> sets exactly the nine pixels of
  \<open>[2,5) x [2,5)\<close>.
\<close>

theorem rect_fills_exactly:
  "width (snd (bmp_plot_rect res (of_int x) (of_int y) (of_int w) (of_int h) r g b)) = width res \<and>
   height (snd (bmp_plot_rect res (of_int x) (of_int y) (of_int w) (of_int h) r g b)) = height res \<and>
   pixels (snd (bmp_plot_rect res (of_int x) (of_int y) (of_int w) (of_int h) r g b)) (i, j) =
     (if x \<le> i \<and> i < x + w \<and> y \<le> j \<and> j < y + h \<and>
         0 \<le> i \<and> i < width res \<and> 0 \<le> j \<and> j < height res
      then (r, g, b) else pixels res (i, j))"
proof -
  have dims: "has_dims (width res) (height res) res"
    by (simp add: has_dims_def)
  note p = rect_paints [of "width res" "height res" x w y h r g b]
  have "has_dims (width res) (height res)
          (snd (bmp_plot_rect res (of_int x) (of_int y) (of_int w) (of_int h) r g b))"
    using p dims by (rule paints_inv)
  moreover have "pixels (snd (bmp_plot_rect res (of_int x) (of_int y) (of_int w) (of_int h) r g b)) (i, j) =
     (if (i, j) \<in> {(i, j). x \<le> i \<and> i < x + w \<and> y \<le> j \<and> j < y + h \<and>
         0 \<le> i \<and> i < width res \<and> 0 \<le> j \<and> j < height res}
      then (r, g, b) else pixels res (i, j))"
    using p dims by (rule paints_img)
  ultimately show ?thesis
    by (simp add: has_dims_def)
qed

theorem rect_fills_exactly_witness:
  "\<forall>i j. pixels (snd (bmp_plot_rect \<lparr>width = 10, height = 10, pixels = \<lambda>q. (0, 0, 0)\<rparr>
                        2 2 3 3 10 20 30)) (i, j) =
     (if 2 \<le> i \<and> i < 5 \<and> 2 \<le> j \<and> j < 5 then (10, 20, 30) else (0, 0, 0))"
  using rect_fills_exactly
    [of "\<lparr>width = 10, height = 10, pixels = \<lambda>q. (0, 0, 0)\<rparr>" 2 2 3 3 10 20 30]
  by auto

section \<open>Copying: the loop nest\<close>

lemma set_pixel_pixels_real:
  "pixels (bmp_resource_set_pixel res (Fin a) (Fin b) r g bl) q =
     (if q = (\<lfloor>a\<rfloor>, \<lfloor>b\<rfloor>) \<and> 0 \<le> \<lfloor>a\<rfloor> \<and> \<lfloor>a\<rfloor> < width res \<and> 0 \<le> \<lfloor>b\<rfloor> \<and> \<lfloor>b\<rfloor> < height res
      then (r, g, bl) else pixels res q)"
  by (simp add: bmp_resource_set_pixel_def floor_less_iff)

lemma get_pixel_int:
  "0 \<le> i \<Longrightarrow> i < width S \<Longrightarrow> 0 \<le> j \<Longrightarrow> j < height S \<Longrightarrow>
   bmp_resource_get_pixel S (Fin (of_int i)) (Fin (of_int j)) = Some (pixels S (i, j))"
  by (simp add: bmp_resource_get_pixel_def)

lemma shifted_less: "real_of_int i + x < of_int W \<longleftrightarrow> i + \<lfloor>x\<rfloor> < W"
proof -
  have "\<lfloor>of_int i + x\<rfloor> < W \<longleftrightarrow> of_int i + x < of_int W"
    by (rule floor_less_iff)
  then show ?thesis
    by simp
qed

lemma resource_pixel_paints:
  assumes p: "p < length st0"
    and rd: "0 \<le> i" "i < width S" "0 \<le> j" "j < height S"
  shows "paints (copying st0 p S) (dest_img p)
           (if 0 \<le> i + \<lfloor>x\<rfloor> \<and> i + \<lfloor>x\<rfloor> < width (st0 ! p) \<and>
               0 \<le> j + \<lfloor>y\<rfloor> \<and> j + \<lfloor>y\<rfloor> < height (st0 ! p)
            then {(i + \<lfloor>x\<rfloor>, j + \<lfloor>y\<rfloor>)} else {})
           (\<lambda>q. pixels S (fst q - \<lfloor>x\<rfloor>, snd q - \<lfloor>y\<rfloor>))
           (resource_pixel p (length st0) x y (of_int i) (of_int j))"
proof (rule paintsI)
  fix s assume "copying st0 p S s"
  then obtain st where st: "s = Some st" "length st = Suc (length st0)" "st ! length st0 = S"
      "width (st ! p) = width (st0 ! p)" "height (st ! p) = height (st0 ! p)"
      "\<forall>r < length st0. r \<noteq> p \<longrightarrow> st ! r = st0 ! r"
    unfolding copying_def by blast
  let ?new = "bmp_resource_set_pixel (st ! p) (Fin (of_int i + x)) (Fin (of_int j + y))
               (fst (pixels S (i, j))) (fst (snd (pixels S (i, j)))) (snd (snd (pixels S (i, j))))"
  have step: "resource_pixel p (length st0) x y (of_int i) (of_int j) s =
          (if i + \<lfloor>x\<rfloor> < width (st0 ! p) \<and> j + \<lfloor>y\<rfloor> < height (st0 ! p)
           then Some (st[p := ?new]) else Some st)"
    using st rd by (simp add: resource_pixel_def get_pixel_int shifted_less split: prod.splits)
  show "copying st0 p S (resource_pixel p (length st0) x y (of_int i) (of_int j) s)"
    unfolding step copying_def using st p by (auto simp: nth_list_update)
  fix q
  show "dest_img p (resource_pixel p (length st0) x y (of_int i) (of_int j) s) q =
          (if q \<in> (if 0 \<le> i + \<lfloor>x\<rfloor> \<and> i + \<lfloor>x\<rfloor> < width (st0 ! p) \<and>
               0 \<le> j + \<lfloor>y\<rfloor> \<and> j + \<lfloor>y\<rfloor> < height (st0 ! p)
            then {(i + \<lfloor>x\<rfloor>, j + \<lfloor>y\<rfloor>)} else {})
           then pixels S (fst q - \<lfloor>x\<rfloor>, snd q - \<lfloor>y\<rfloor>) else dest_img p s q)"
    unfolding step dest_img_def using st p
    by (auto simp: set_pixel_pixels_real)
qed


lemma copy_extent_le: "copy_extent w d \<le> of_int d"
  by (simp add: copy_extent_def clamp_def Let_def)

lemma copy_nest_paints:
  assumes p: "p < length st0"
    and w: "W \<le> of_int (width S)" and h: "H \<le> of_int (height S)"
  shows "paints (copying st0 p S) (dest_img p)
           {(i + \<lfloor>x\<rfloor>, j + \<lfloor>y\<rfloor>) | i j.
              0 \<le> i \<and> of_int i < W \<and> 0 \<le> j \<and> of_int j < H \<and>
              0 \<le> i + \<lfloor>x\<rfloor> \<and> i + \<lfloor>x\<rfloor> < width (st0 ! p) \<and>
              0 \<le> j + \<lfloor>y\<rfloor> \<and> j + \<lfloor>y\<rfloor> < height (st0 ! p)}
           (\<lambda>q. pixels S (fst q - \<lfloor>x\<rfloor>, snd q - \<lfloor>y\<rfloor>))
           (for_loop 0 W (\<lambda>x1. for_loop 0 H (\<lambda>y1. resource_pixel p (length st0) x y x1 y1)))"
proof -
  let ?P = "\<lambda>i j. if 0 \<le> i + \<lfloor>x\<rfloor> \<and> i + \<lfloor>x\<rfloor> < width (st0 ! p) \<and>
               0 \<le> j + \<lfloor>y\<rfloor> \<and> j + \<lfloor>y\<rfloor> < height (st0 ! p)
            then {(i + \<lfloor>x\<rfloor>, j + \<lfloor>y\<rfloor>)} else {}"
  let ?col = "\<lambda>q. pixels S (fst q - \<lfloor>x\<rfloor>, snd q - \<lfloor>y\<rfloor>)"
  have inner: "paints (copying st0 p S) (dest_img p)
                 (\<Union>j\<in>{j. 0 \<le> j \<and> real_of_int j < H}. ?P i j) ?col
                 (for_loop (of_int 0) H (\<lambda>y1. resource_pixel p (length st0) x y (of_int i) y1))"
    if i: "0 \<le> i" "real_of_int i < W" for i
  proof (rule paints_for_loop)
    fix j :: int assume j: "0 \<le> j" "real_of_int j < H"
    have "i < width S" "j < height S"
      using i j w h by linarith+
    with p i j show "paints (copying st0 p S) (dest_img p) (?P i j) ?col
            (resource_pixel p (length st0) x y (of_int i) (of_int j))"
      by (intro resource_pixel_paints) simp_all
  qed
  have "paints (copying st0 p S) (dest_img p)
          (\<Union>i\<in>{i. 0 \<le> i \<and> real_of_int i < W}. \<Union>j\<in>{j. 0 \<le> j \<and> real_of_int j < H}. ?P i j) ?col
          (for_loop (of_int 0) W
             (\<lambda>x1. for_loop 0 H (\<lambda>y1. resource_pixel p (length st0) x y x1 y1)))"
    by (rule paints_for_loop) (use inner in simp)
  moreover have "(\<Union>i\<in>{i. 0 \<le> i \<and> real_of_int i < W}. \<Union>j\<in>{j. 0 \<le> j \<and> real_of_int j < H}. ?P i j)
          = {(i + \<lfloor>x\<rfloor>, j + \<lfloor>y\<rfloor>) | i j.
              0 \<le> i \<and> of_int i < W \<and> 0 \<le> j \<and> of_int j < H \<and>
              0 \<le> i + \<lfloor>x\<rfloor> \<and> i + \<lfloor>x\<rfloor> < width (st0 ! p) \<and>
              0 \<le> j + \<lfloor>y\<rfloor> \<and> j + \<lfloor>y\<rfloor> < height (st0 ! p)}"
    by (auto split: if_splits)
  ultimately show ?thesis
    by simp
qed

lemma plot_resource_result:
  assumes p: "p < length st" and c: "c < length st"
  shows "\<exists>st'. bmp_plot_resource st p c x y w h = Some (True, st') \<and>
           length st' = length st \<and>
           (\<forall>r < length st. r \<noteq> p \<longrightarrow> st' ! r = st ! r) \<and>
           width (st' ! p) = width (st ! p) \<and> height (st' ! p) = height (st ! p) \<and>
           (\<forall>i j. pixels (st' ! p) (i, j) =
              (if 0 \<le> i - \<lfloor>x\<rfloor> \<and> of_int (i - \<lfloor>x\<rfloor>) < copy_extent w (width (st ! c)) \<and>
                  0 \<le> j - \<lfloor>y\<rfloor> \<and> of_int (j - \<lfloor>y\<rfloor>) < copy_extent h (height (st ! c)) \<and>
                  0 \<le> i \<and> i < width (st ! p) \<and> 0 \<le> j \<and> j < height (st ! p)
               then pixels (st ! c) (i - \<lfloor>x\<rfloor>, j - \<lfloor>y\<rfloor>) else pixels (st ! p) (i, j)))"
proof -
  let ?S = "st ! c"
  let ?W = "copy_extent w (width ?S)" and ?H = "copy_extent h (height ?S)"
  let ?st1 = "st @ [?S]"
  let ?nest = "for_loop 0 ?W (\<lambda>x1. for_loop 0 ?H (\<lambda>y1. resource_pixel p (length st) x y x1 y1))"
  let ?A = "{(i + \<lfloor>x\<rfloor>, j + \<lfloor>y\<rfloor>) | i j.
              0 \<le> i \<and> of_int i < ?W \<and> 0 \<le> j \<and> of_int j < ?H \<and>
              0 \<le> i + \<lfloor>x\<rfloor> \<and> i + \<lfloor>x\<rfloor> < width (st ! p) \<and>
              0 \<le> j + \<lfloor>y\<rfloor> \<and> j + \<lfloor>y\<rfloor> < height (st ! p)}"
  have run: "bmp_plot_resource st p c x y w h
               = map_option (\<lambda>st2. (True, take (length st) st2)) (?nest (Some ?st1))"
    by (simp add: bmp_plot_resource_def structuredClone_def Let_def)
  have init: "copying st p ?S (Some ?st1)"
    using p by (simp add: copying_def nth_append)
  have paint: "paints (copying st p ?S) (dest_img p) ?A
                 (\<lambda>q. pixels ?S (fst q - \<lfloor>x\<rfloor>, snd q - \<lfloor>y\<rfloor>)) ?nest"
    using p by (intro copy_nest_paints copy_extent_le)
  have "copying st p ?S (?nest (Some ?st1))"
    using paint init by (rule paints_inv)
  then obtain st2 where st2: "?nest (Some ?st1) = Some st2" "length st2 = Suc (length st)"
      "width (st2 ! p) = width (?st1 ! p)" "height (st2 ! p) = height (?st1 ! p)"
      "\<forall>r < length st. r \<noteq> p \<longrightarrow> st2 ! r = st ! r"
    using p unfolding copying_def by (auto simp: nth_append)
  have img: "pixels (st2 ! p) q =
               (if q \<in> ?A then pixels ?S (fst q - \<lfloor>x\<rfloor>, snd q - \<lfloor>y\<rfloor>) else pixels (st ! p) q)" for q
  proof -
    have "dest_img p (?nest (Some ?st1)) q =
            (if q \<in> ?A then pixels ?S (fst q - \<lfloor>x\<rfloor>, snd q - \<lfloor>y\<rfloor>)
             else dest_img p (Some ?st1) q)"
      using paint init by (rule paints_img)
    moreover have "dest_img p (?nest (Some ?st1)) q = pixels (st2 ! p) q"
      by (simp only: st2(1) dest_img_def option.sel)
    moreover have "dest_img p (Some ?st1) q = pixels (st ! p) q"
      using p by (simp only: dest_img_def option.sel nth_append if_True)
    ultimately show ?thesis
      by (simp only:)
  qed
  have mem: "(i, j) \<in> ?A \<longleftrightarrow>
               (0 \<le> i - \<lfloor>x\<rfloor> \<and> of_int (i - \<lfloor>x\<rfloor>) < ?W \<and> 0 \<le> j - \<lfloor>y\<rfloor> \<and> of_int (j - \<lfloor>y\<rfloor>) < ?H \<and>
                0 \<le> i \<and> i < width (st ! p) \<and> 0 \<le> j \<and> j < height (st ! p))" for i j
  proof
    assume "(i, j) \<in> ?A"
    then show "0 \<le> i - \<lfloor>x\<rfloor> \<and> of_int (i - \<lfloor>x\<rfloor>) < ?W \<and> 0 \<le> j - \<lfloor>y\<rfloor> \<and> of_int (j - \<lfloor>y\<rfloor>) < ?H \<and>
                0 \<le> i \<and> i < width (st ! p) \<and> 0 \<le> j \<and> j < height (st ! p)"
      by auto
  next
    assume r: "0 \<le> i - \<lfloor>x\<rfloor> \<and> of_int (i - \<lfloor>x\<rfloor>) < ?W \<and> 0 \<le> j - \<lfloor>y\<rfloor> \<and> of_int (j - \<lfloor>y\<rfloor>) < ?H \<and>
                0 \<le> i \<and> i < width (st ! p) \<and> 0 \<le> j \<and> j < height (st ! p)"
    have "(i, j) = ((i - \<lfloor>x\<rfloor>) + \<lfloor>x\<rfloor>, (j - \<lfloor>y\<rfloor>) + \<lfloor>y\<rfloor>)"
      by simp
    with r show "(i, j) \<in> ?A"
      by (intro CollectI exI [of _ "i - \<lfloor>x\<rfloor>"] exI [of _ "j - \<lfloor>y\<rfloor>"]) simp
  qed
  let ?st' = "take (length st) st2"
  have nth: "?st' ! r = st2 ! r" if "r < length st" for r
    using that by simp
  have "bmp_plot_resource st p c x y w h = Some (True, ?st')"
    by (simp add: run st2(1))
  moreover have "length ?st' = length st"
    using st2(2) by simp
  moreover have "\<forall>r < length st. r \<noteq> p \<longrightarrow> ?st' ! r = st ! r"
    using st2(5) by simp
  moreover have "width (?st' ! p) = width (st ! p)" "height (?st' ! p) = height (st ! p)"
    using st2(3,4) p by (simp_all add: nth_append)
  moreover have "\<forall>i j. pixels (?st' ! p) (i, j) =
              (if 0 \<le> i - \<lfloor>x\<rfloor> \<and> of_int (i - \<lfloor>x\<rfloor>) < ?W \<and>
                  0 \<le> j - \<lfloor>y\<rfloor> \<and> of_int (j - \<lfloor>y\<rfloor>) < ?H \<and>
                  0 \<le> i \<and> i < width (st ! p) \<and> 0 \<le> j \<and> j < height (st ! p)
               then pixels (st ! c) (i - \<lfloor>x\<rfloor>, j - \<lfloor>y\<rfloor>) else pixels (st ! p) (i, j))"
    using p by (simp add: img mem del: mem_Collect_eq)
  ultimately show ?thesis
    by blast
qed

section \<open>Copying: extent, snapshot, self-copy\<close>

text \<open>
  Claim C5, as amended. \<open>bmp_plot_resource\<close> runs its loop nest over \<open>[0,w) x [0,h)\<close> for the
  extents \<open>copy_extent\<close> computes from the requests and the dimensions of the source. For a
  source dimension \<open>d \<ge> 0\<close> the extent is \<open>d\<close> for every request at or below \<open>-1\<close> (the
  clamp turns each of them into \<open>-1\<close>, and \<open>-1\<close> selects the full dimension), and the
  smaller of the request and \<open>d\<close> otherwise; it agrees with the rule of the spec for every
  request that is at least \<open>-1\<close>.
\<close>

theorem copy_extent_rule:
  "bmp_plot_resource st p c x y w h =
     map_option (\<lambda>st2. (True, take (length st) st2))
       (for_loop 0 (copy_extent w (width (st ! c))) (\<lambda>x1.
          for_loop 0 (copy_extent h (height (st ! c))) (\<lambda>y1.
            resource_pixel p (length st) x y x1 y1))
        (Some (st @ [st ! c]))) \<and>
   (0 \<le> d \<longrightarrow>
      copy_extent v d = (if v \<le> - 1 then of_int d else min v (of_int d)) \<and>
      (- 1 \<le> v \<longrightarrow> copy_extent v d = spec_copy_extent v d))"
  by (simp add: bmp_plot_resource_def structuredClone_def Let_def copy_extent_def
      spec_copy_extent_def clamp_def)

theorem copy_extent_rule_witness:
  "(0::int) \<le> 4 \<and> copy_extent (- 5) 4 = 4 \<and> copy_extent 2 4 = 2 \<and> copy_extent 9 4 = 4 \<and>
   copy_extent 2 4 = spec_copy_extent 2 4"
  using copy_extent_rule [of "[]" 0 0 0 0 0 0 4 "- 5"] copy_extent_rule [of "[]" 0 0 0 0 0 0 4 2]
    copy_extent_rule [of "[]" 0 0 0 0 0 0 4 9]
  by simp

text \<open>
  The claim as stated fails for a request below \<open>-1\<close>: the rule of the spec clamps \<open>-5\<close> to
  \<open>-1\<close> and would copy nothing, the code copies the full source.
\<close>

theorem copy_extent_counterexample:
  "spec_copy_extent (- 5) 4 = - 1 \<and> copy_extent (- 5) 4 = 4 \<and>
   (\<exists>st'. bmp_plot_resource
            [\<lparr>width = 4, height = 4, pixels = \<lambda>q. (0, 0, 0)\<rparr>,
             \<lparr>width = 4, height = 4, pixels = \<lambda>q. (9, 9, 9)\<rparr>] 0 1 0 0 (- 5) (- 5)
          = Some (True, st') \<and>
        pixels (st' ! 0) (3, 3) = (9, 9, 9))"
proof -
  let ?st = "[\<lparr>width = 4, height = 4, pixels = \<lambda>q. (0, 0, 0)\<rparr>,
              \<lparr>width = 4, height = 4, pixels = \<lambda>q. (9::int, 9::int, 9::int)\<rparr>]"
  have ext: "copy_extent (- 5) 4 = 4"
    by (simp add: copy_extent_def clamp_def)
  obtain st' where st': "bmp_plot_resource ?st 0 1 0 0 (- 5) (- 5) = Some (True, st')"
    and px: "\<forall>i j. pixels (st' ! 0) (i, j) =
              (if 0 \<le> i - \<lfloor>0::real\<rfloor> \<and> of_int (i - \<lfloor>0::real\<rfloor>) < copy_extent (- 5) (width (?st ! 1)) \<and>
                  0 \<le> j - \<lfloor>0::real\<rfloor> \<and> of_int (j - \<lfloor>0::real\<rfloor>) < copy_extent (- 5) (height (?st ! 1)) \<and>
                  0 \<le> i \<and> i < width (?st ! 0) \<and> 0 \<le> j \<and> j < height (?st ! 0)
               then pixels (?st ! 1) (i - \<lfloor>0::real\<rfloor>, j - \<lfloor>0::real\<rfloor>) else pixels (?st ! 0) (i, j))"
    using plot_resource_result [of 0 ?st 1 0 0 "- 5" "- 5"] by auto
  have "pixels (st' ! 0) (3, 3) = (9, 9, 9)"
    using px [rule_format, of 3 3] by (simp add: ext)
  with st' ext show ?thesis
    by (simp add: spec_copy_extent_def clamp_def)
qed

text \<open>
  Claim C6. For valid references \<open>p\<close> and \<open>c\<close>, equal or not, \<open>bmp_plot_resource\<close> returns
  true; every pixel it writes receives the value the source had at that offset when the
  call began, every other pixel of the destination keeps its value, and no other resource
  of the store changes. The written pixels are those at \<open>(i, j)\<close> with \<open>(i - x, j - y)\<close> in
  \<open>[0,w) x [0,h)\<close> and \<open>(i, j)\<close> inside the destination.
\<close>

theorem resource_copies_snapshot:
  assumes "p < length st" and "c < length st"
  shows "\<exists>st'. bmp_plot_resource st p c x y w h = Some (True, st') \<and>
           length st' = length st \<and>
           (\<forall>r < length st. r \<noteq> p \<longrightarrow> st' ! r = st ! r) \<and>
           (\<forall>i j. pixels (st' ! p) (i, j) =
              (if 0 \<le> i - \<lfloor>x\<rfloor> \<and> of_int (i - \<lfloor>x\<rfloor>) < copy_extent w (width (st ! c)) \<and>
                  0 \<le> j - \<lfloor>y\<rfloor> \<and> of_int (j - \<lfloor>y\<rfloor>) < copy_extent h (height (st ! c)) \<and>
                  0 \<le> i \<and> i < width (st ! p) \<and> 0 \<le> j \<and> j < height (st ! p)
               then pixels (st ! c) (i - \<lfloor>x\<rfloor>, j - \<lfloor>y\<rfloor>) else pixels (st ! p) (i, j)))"
  using plot_resource_result [OF assms, of x y w h] by blast

theorem resource_copies_snapshot_witness:
  "(\<exists>st'. bmp_plot_resource
            [\<lparr>width = 4, height = 4, pixels = \<lambda>q. (0, 0, 0)\<rparr>,
             \<lparr>width = 4, height = 4, pixels = \<lambda>(i, j). (i, j, 7)\<rparr>] 0 1 1 1 2 2
          = Some (True, st') \<and>
        (\<forall>i j. pixels (st' ! 0) (i, j) =
           (if 1 \<le> i \<and> i \<le> 2 \<and> 1 \<le> j \<and> j \<le> 2 then (i - 1, j - 1, 7) else (0, 0, 0)))) \<and>
   (\<exists>st'. bmp_plot_resource
            [\<lparr>width = 4, height = 4, pixels = \<lambda>(i, j). (i, j, 7)\<rparr>] 0 0 1 1 2 2
          = Some (True, st') \<and>
        (\<forall>i j. pixels (st' ! 0) (i, j) =
           (if 1 \<le> i \<and> i \<le> 2 \<and> 1 \<le> j \<and> j \<le> 2 then (i - 1, j - 1, 7) else (i, j, 7))))"
proof -
  have ext: "copy_extent 2 4 = 2"
    by (simp add: copy_extent_def clamp_def)
  let ?two = "[\<lparr>width = 4, height = 4, pixels = \<lambda>q. (0, 0, 0)\<rparr>,
               \<lparr>width = 4, height = 4, pixels = \<lambda>(i, j). (i, j, 7::int)\<rparr>]"
  let ?one = "[\<lparr>width = 4, height = 4, pixels = \<lambda>(i, j). (i, j, 7::int)\<rparr>]"
  have "(0::nat) < length ?two" "(1::nat) < length ?two" "(0::nat) < length ?one"
    by simp_all
  note a = resource_copies_snapshot [OF \<open>0 < length ?two\<close> \<open>1 < length ?two\<close>, of 1 1 2 2]
    and b = resource_copies_snapshot [OF \<open>0 < length ?one\<close> \<open>0 < length ?one\<close>, of 1 1 2 2]
  from a obtain sa where sa: "bmp_plot_resource ?two 0 1 1 1 2 2 = Some (True, sa)"
    "\<And>i j. pixels (sa ! 0) (i, j) =
       (if 1 \<le> i \<and> i \<le> 2 \<and> 1 \<le> j \<and> j \<le> 2 then (i - 1, j - 1, 7) else (0, 0, 0))"
    by (auto simp: ext)
  from b obtain sb where sb: "bmp_plot_resource ?one 0 0 1 1 2 2 = Some (True, sb)"
    "\<And>i j. pixels (sb ! 0) (i, j) =
       (if 1 \<le> i \<and> i \<le> 2 \<and> 1 \<le> j \<and> j \<le> 2 then (i - 1, j - 1, 7) else (i, j, 7))"
    by (auto simp: ext)
  from sa sb show ?thesis
    by blast
qed

text \<open>
  Claim C10. Copying a buffer onto itself at offset \<open>(0, 0)\<close> with the default extents
  \<open>(-1, -1)\<close> returns true and leaves the store, hence every pixel of the buffer, as it was.
\<close>

theorem resource_self_copy_identity:
  assumes "a < length st"
  shows "bmp_plot_resource st a a 0 0 (- 1) (- 1) = Some (True, st)"
proof -
  obtain st' where run: "bmp_plot_resource st a a 0 0 (- 1) (- 1) = Some (True, st')"
    and len: "length st' = length st"
    and others: "\<forall>r < length st. r \<noteq> a \<longrightarrow> st' ! r = st ! r"
    and dims: "width (st' ! a) = width (st ! a)" "height (st' ! a) = height (st ! a)"
    and px: "\<forall>i j. pixels (st' ! a) (i, j) =
              (if 0 \<le> i - \<lfloor>0::real\<rfloor> \<and> of_int (i - \<lfloor>0::real\<rfloor>) < copy_extent (- 1) (width (st ! a)) \<and>
                  0 \<le> j - \<lfloor>0::real\<rfloor> \<and> of_int (j - \<lfloor>0::real\<rfloor>) < copy_extent (- 1) (height (st ! a)) \<and>
                  0 \<le> i \<and> i < width (st ! a) \<and> 0 \<le> j \<and> j < height (st ! a)
               then pixels (st ! a) (i - \<lfloor>0::real\<rfloor>, j - \<lfloor>0::real\<rfloor>) else pixels (st ! a) (i, j))"
    using plot_resource_result [OF assms assms, of 0 0 "- 1" "- 1"] by blast
  have "pixels (st' ! a) q = pixels (st ! a) q" for q
    using px [rule_format, of "fst q" "snd q"] by simp
  then have "pixels (st' ! a) = pixels (st ! a)"
    by (rule ext)
  with dims have "st' ! a = st ! a"
    by (intro resource.equality) simp_all
  with others have "\<forall>r < length st. st' ! r = st ! r"
    by metis
  with len have "st' = st"
    by (simp add: list_eq_iff_nth_eq)
  with run show ?thesis
    by simp
qed

theorem resource_self_copy_identity_witness:
  "(0::nat) < length [\<lparr>width = 2, height = 2, pixels = \<lambda>(i, j). (i, j, 7)\<rparr>] \<and>
   bmp_plot_resource [\<lparr>width = 2, height = 2, pixels = \<lambda>(i, j). (i, j, 7)\<rparr>] 0 0 0 0 (- 1) (- 1)
     = Some (True, [\<lparr>width = 2, height = 2, pixels = \<lambda>(i, j). (i, j, 7)\<rparr>])"
  using resource_self_copy_identity [of 0 "[\<lparr>width = 2, height = 2, pixels = \<lambda>(i, j). (i, j, 7)\<rparr>]"]
  by simp

section \<open>Double precision: rounding lemmas\<close>

lemma round_even_int [simp]: "round_even (of_int m) = m"
  by (simp add: round_even_def)

lemma powr2_int: "2 powr real_of_int k = 2 powi k"
  by (rule powr_real_of_int') simp_all

lemma floor_log2_iff:
  assumes "x \<noteq> 0"
  shows "\<lfloor>log 2 \<bar>x\<bar>\<rfloor> = e \<longleftrightarrow> 2 powi e \<le> \<bar>x\<bar> \<and> \<bar>x\<bar> < 2 powi (e + 1)"
proof -
  have pos: "0 < \<bar>x\<bar>" using assms by simp
  have "real_of_int e + 1 = real_of_int (e + 1)"
    by simp
  then have "2 powr (real_of_int e + 1) = 2 powi (e + 1)"
    by (simp only: powr2_int)
  then show ?thesis
    using floor_log_eq_powr_iff [OF pos, of 2 e] by (simp add: powr2_int)
qed


lemma pow2_less_imp: "(2::real) powi a < 2 powi b \<Longrightarrow> a < b"
  using power_int_increasing [of b a "2::real"] by (cases "a < b") auto

lemma rd_exact:
  assumes "x \<noteq> 0" and "x / 2 powi (dbl_exp x - 52) = of_int m" and "\<bar>x\<bar> < 2 ^ 1024"
  shows "rd x = Fin x"
proof -
  let ?u = "(2::real) powi (dbl_exp x - 52)"
  have u: "?u \<noteq> 0" by simp
  have "of_int (round_even (x / ?u)) * ?u = x / ?u * ?u"
    by (simp only: assms(2) round_even_int)
  also have "\<dots> = x"
    using u by simp
  finally show ?thesis
    using assms(1,3) by (simp add: rd_def Let_def)
qed

lemma rd_dyadic:
  assumes m: "m \<noteq> 0" "\<bar>m\<bar> < 2 ^ 53" and s: "- 1074 \<le> s"
    and fin: "\<bar>of_int m * 2 powi s\<bar> < (2::real) ^ 1024"
  shows "rd (of_int m * 2 powi s) = Fin (of_int m * 2 powi s)"
proof -
  let ?x = "real_of_int m * 2 powi s"
  let ?e = "\<lfloor>log 2 \<bar>?x\<bar>\<rfloor>"
  have x0: "?x \<noteq> 0" using m by simp
  have ax: "\<bar>?x\<bar> = real_of_int \<bar>m\<bar> * 2 powi s"
    by (simp add: abs_mult)
  have "1 \<le> real_of_int \<bar>m\<bar>" "real_of_int \<bar>m\<bar> < 2 ^ 53"
    using m by (simp_all flip: of_int_abs)
  note am = this
  have ps: "(0::real) < 2 powi s"
    by simp
  have "1 * 2 powi s \<le> real_of_int \<bar>m\<bar> * 2 powi s"
    using am(1) ps by (intro mult_right_mono) simp_all
  then have lo: "2 powi s \<le> \<bar>?x\<bar>"
    unfolding ax by simp
  have hi: "\<bar>?x\<bar> < 2 ^ 53 * 2 powi s"
    unfolding ax using am(2) ps by (rule mult_strict_right_mono)
  have hi': "\<bar>?x\<bar> < 2 powi (s + 53)"
    using hi by (simp add: power_int_add mult.commute)
  from floor_log2_iff [OF x0, of ?e]
  have b: "2 powi ?e \<le> \<bar>?x\<bar>" "\<bar>?x\<bar> < 2 powi (?e + 1)"
    by simp_all
  have "(2::real) powi ?e < 2 powi (s + 53)"
    using b(1) hi' by linarith
  then have e_hi: "?e < s + 53"
    by (rule pow2_less_imp)
  have "(2::real) powi s < 2 powi (?e + 1)"
    using lo b(2) by linarith
  then have e_lo: "s < ?e + 1"
    by (rule pow2_less_imp)
  define t where "t = s - (dbl_exp ?x - 52)"
  have t: "0 \<le> t"
    using e_hi s by (simp add: t_def dbl_exp_def)
  have "?x / 2 powi (dbl_exp ?x - 52) = real_of_int m * (2 powi s / 2 powi (dbl_exp ?x - 52))"
    by simp
  also have "2 powi s / 2 powi (dbl_exp ?x - 52) = (2::real) powi t"
    by (simp add: t_def power_int_diff)
  also have "\<dots> = 2 ^ nat t"
    using t by (simp add: power_int_nonneg_exp)
  finally have "?x / 2 powi (dbl_exp ?x - 52) = of_int (m * 2 ^ nat t)"
    by simp
  with x0 show ?thesis
    using fin by (intro rd_exact)
qed

lemma rd_zero [simp]: "rd 0 = Fin 0"
  by (simp add: rd_def)

lemma rd_int:
  assumes "\<bar>n\<bar> \<le> 2 ^ 53"
  shows "rd (of_int n) = Fin (of_int n)"
proof (cases "n = 0")
  case True
  then show ?thesis by simp
next
  case n0: False
  show ?thesis
  proof (cases "\<bar>n\<bar> = 2 ^ 53")
    case True
    then have n: "n = 2 ^ 53 \<or> n = - (2 ^ 53)"
      by linarith
    have "rd (of_int (n div 2 ^ 53) * 2 powi 53) = Fin (of_int (n div 2 ^ 53) * 2 powi 53)"
      using n by (intro rd_dyadic) auto
    moreover have "real_of_int (n div 2 ^ 53) * 2 powi 53 = of_int n"
      using n by auto
    ultimately show ?thesis
      by simp
  next
    case False
    with assms have "\<bar>n\<bar> < 2 ^ 53"
      by linarith
    moreover from this have "\<bar>real_of_int n\<bar> < 2 ^ 1024"
    proof -
      have "\<bar>real_of_int n\<bar> < 2 ^ 53"
        using \<open>\<bar>n\<bar> < 2 ^ 53\<close> by (simp flip: of_int_abs)
      also have "(2::real) ^ 53 < 2 ^ 1024"
        by (rule power_strict_increasing) simp_all
      finally show ?thesis .
    qed
    ultimately have "rd (of_int n * 2 powi 0) = Fin (of_int n * 2 powi 0)"
      using n0 by (intro rd_dyadic) simp_all
    then show ?thesis
      by simp
  qed
qed







lemma rd_pow2:
  assumes "- 1074 \<le> s" and "s < 1024"
  shows "rd (2 powi s) = Fin (2 powi s)"
proof -
  have "(2::real) powi s < 2 powi 1024"
    using assms(2) by (intro power_int_strict_increasing) simp_all
  then have "\<bar>real_of_int 1 * 2 powi s\<bar> < 2 ^ 1024"
    by simp
  then have "rd (of_int 1 * 2 powi s) = Fin (of_int 1 * 2 powi s)"
    using assms(1) by (intro rd_dyadic) simp_all
  then show ?thesis
    by simp
qed

lemma rd_eval:
  assumes "x \<noteq> 0" and "2 powi e \<le> \<bar>x\<bar>" and "\<bar>x\<bar> < 2 powi (e + 1)" and "- 1022 \<le> e"
    and "round_even (x / 2 powi (e - 52)) = m"
    and "\<bar>real_of_int m * 2 powi (e - 52)\<bar> < 2 ^ 1024"
  shows "rd x = Fin (of_int m * 2 powi (e - 52))"
proof -
  have "\<lfloor>log 2 \<bar>x\<bar>\<rfloor> = e"
    using assms(2,3) by (simp add: floor_log2_iff [OF assms(1)])
  then have "dbl_exp x = e"
    using assms(4) by (simp add: dbl_exp_def)
  then show ?thesis
    using assms(1,5,6) by (simp add: rd_def Let_def)
qed

lemma rd_tie: "rd (2 ^ 53 + 1) = Fin (2 ^ 53)"
proof -
  have "rd (2 ^ 53 + 1) = Fin (of_int (2 ^ 52) * 2 powi (53 - 52))"
    by (rule rd_eval) (simp_all add: round_even_def Let_def)
  then show ?thesis
    by simp
qed



lemma rd_numeral [simp]: "(numeral n :: int) \<le> 2 ^ 53 \<Longrightarrow> rd (numeral n) = Fin (numeral n)"
  using rd_int [of "numeral n"] by simp

lemma rd_one [simp]: "rd 1 = Fin 1"
  using rd_int [of 1] by simp

lemma rd_neg_numeral [simp]:
  "(numeral n :: int) \<le> 2 ^ 53 \<Longrightarrow> rd (- numeral n) = Fin (- numeral n)"
  using rd_int [of "- numeral n"] by simp

lemma rd_half [simp]: "rd (1 / 2) = Fin (1 / 2)"
  using rd_pow2 [of "- 1"] by (simp add: power_int_minus)


section \<open>The loop over doubles\<close>

lemma dfor_done: "\<not> js_less i n \<Longrightarrow> dfor i n body s = Some s"
  by (subst dfor.simps) simp

lemma dfor_step: "js_less i n \<Longrightarrow> dfor i n body s = dfor (dadd i (Fin 1)) n body (body i s)"
  by (subst dfor.simps) simp

lemma dadd_one:
  assumes "- (2 ^ 53) \<le> k" and "k < 2 ^ 53"
  shows "dadd (Fin (of_int k)) (Fin 1) = Fin (of_int (k + 1))"
proof -
  have "rd (of_int (k + 1)) = Fin (of_int (k + 1))"
    using assms by (intro rd_int) simp
  then show ?thesis
    by simp
qed

lemma dadd_one_stuck: "dadd (Fin (of_int (2 ^ 53))) (Fin 1) = Fin (of_int (2 ^ 53))"
  using rd_tie by simp

text \<open>A loop whose bound is at most \<open>2 ^ 53\<close> visits the integers below the bound.\<close>

lemma dfor_upto:
  assumes "l \<le> 2 ^ 53"
  shows "- (2 ^ 53) \<le> k \<Longrightarrow>
         dfor (Fin (of_int k)) (Fin l) body s =
           Some (fold (\<lambda>j. body (Fin (of_int j))) [k..\<lceil>l\<rceil> - 1] s)"
proof (induction "nat (\<lceil>l\<rceil> - k)" arbitrary: k s)
  case 0
  then have "\<not> of_int k < l"
    by (simp add: less_ceiling_iff [symmetric])
  moreover from 0 have "[k..\<lceil>l\<rceil> - 1] = []"
    by simp
  ultimately show ?case
    by (simp add: dfor_done)
next
  case (Suc m)
  then have lt: "k < \<lceil>l\<rceil>"
    by linarith
  then have less: "js_less (Fin (of_int k)) (Fin l)"
    by (simp add: less_ceiling_iff)
  have "\<lceil>l\<rceil> \<le> 2 ^ 53"
    using assms by (simp add: ceiling_le_iff)
  with lt have k: "k < 2 ^ 53"
    by linarith
  have "dfor (Fin (of_int k)) (Fin l) body s
          = dfor (Fin (of_int (k + 1))) (Fin l) body (body (Fin (of_int k)) s)"
    by (simp only: dfor_step [OF less] dadd_one [OF Suc.prems k])
  also have "\<dots> = Some (fold (\<lambda>j. body (Fin (of_int j))) [k + 1..\<lceil>l\<rceil> - 1]
                        (body (Fin (of_int k)) s))"
    using Suc by (intro Suc.hyps(1)) linarith+
  also have "\<dots> = Some (fold (\<lambda>j. body (Fin (of_int j))) [k..\<lceil>l\<rceil> - 1] s)"
    using lt by (simp add: upto_rec1 [of k "\<lceil>l\<rceil> - 1"])
  finally show ?case .
qed

text \<open>A loop whose bound is above \<open>2 ^ 53\<close> never ends.\<close>

lemma dfor_stays:
  assumes run: "dfor i n body s = Some y"
  shows "\<not> (js_less (Fin (2 ^ 53)) n \<and> (\<exists>k::int. i = Fin (of_int k) \<and> 0 \<le> k \<and> k \<le> 2 ^ 53))"
proof (rule dfor.raw_induct
    [where P = "\<lambda>i n body s y. \<not> (js_less (Fin (2 ^ 53)) n \<and>
                  (\<exists>k::int. i = Fin (of_int k) \<and> 0 \<le> k \<and> k \<le> 2 ^ 53))", OF _ run],
    goal_cases)
  case (1 loop i n body s y)
  show ?case
  proof
    assume a: "js_less (Fin (2 ^ 53)) n \<and> (\<exists>k::int. i = Fin (of_int k) \<and> 0 \<le> k \<and> k \<le> 2 ^ 53)"
    then obtain k :: int where k: "i = Fin (of_int k)" "0 \<le> k" "k \<le> 2 ^ 53"
      by blast
    have "real_of_int k \<le> real_of_int (2 ^ 53)"
      using k(3) by (simp only: of_int_le_iff)
    then have "real_of_int k \<le> 2 ^ 53"
      by simp
    with a have "js_less i n"
      unfolding k(1) by (cases n) auto
    with 1(2) have run: "loop (dadd i (Fin 1)) n body (body i s) = Some y"
      by simp
    have "\<exists>k'::int. dadd i (Fin 1) = Fin (of_int k') \<and> 0 \<le> k' \<and> k' \<le> 2 ^ 53"
    proof (cases "k = 2 ^ 53")
      case True
      have "dadd i (Fin 1) = Fin (of_int (2 ^ 53))"
        unfolding k(1) True by (rule dadd_one_stuck)
      then show ?thesis
        by (intro exI [of _ "2 ^ 53"]) simp
    next
      case False
      with k have lt: "k < 2 ^ 53"
        by linarith
      have "dadd i (Fin 1) = Fin (of_int (k + 1))"
        unfolding k(1) using k(2) lt by (intro dadd_one) simp_all
      with k(2) lt show ?thesis
        by (intro exI [of _ "k + 1"]) simp
    qed
    with a 1(1) [OF run] show False
      by blast
  qed
qed

lemma dfor_never:
  assumes "js_less (Fin (2 ^ 53)) n" and "0 \<le> k" and "k \<le> 2 ^ 53"
  shows "dfor (Fin (of_int k)) n body s = None"
proof (cases "dfor (Fin (of_int k)) n body s")
  case (Some y)
  from dfor_stays [OF Some] assms show ?thesis
    by blast
qed simp

lemma fold_const: "fold (\<lambda>k. f) ks s = (f ^^ length ks) s"
  by (induction ks arbitrary: s) (simp_all add: funpow_swap1)

lemma dfor_zero:
  "dfor (Fin 0) n (\<lambda>i. f) s =
     (if line_ends n
      then Some (case n of Fin l \<Rightarrow> (f ^^ nat \<lceil>l\<rceil>) s | _ \<Rightarrow> s)
      else None)"
proof (cases "line_ends n")
  case True
  show ?thesis
  proof (cases n)
    case (Fin l)
    with True have "l \<le> 2 ^ 53"
      by (simp add: line_ends_def)
    then have "dfor (Fin (of_int 0)) (Fin l) (\<lambda>i. f) s =
                 Some (fold (\<lambda>j. f) [0..\<lceil>l\<rceil> - 1] s)"
      by (rule dfor_upto) simp
    with True Fin show ?thesis
      by (simp add: fold_const)
  qed (use True in \<open>simp_all add: dfor_done line_ends_def\<close>)
next
  case False
  then have "dfor (Fin (of_int 0)) n (\<lambda>i. f) s = None"
    by (intro dfor_never) (simp_all add: line_ends_def)
  with False show ?thesis
    by simp
qed




section \<open>Lines: the loop\<close>

lemma line_walk_Suc:
  "line_walk ax ay pt (Suc k) =
     (dadd (fst (line_walk ax ay pt k)) ax, dadd (snd (line_walk ax ay pt k)) ay)"
  by (simp add: line_walk_def)

lemma line_steps:
  "(line_step ax ay r g bl ^^ n) \<lparr>cur_x = u, cur_y = v, target = res, samples = sm\<rparr> =
   \<lparr>cur_x = fst (line_walk ax ay (u, v) n), cur_y = snd (line_walk ax ay (u, v) n),
    target = fold (plot_sample r g bl) (map (line_walk ax ay (u, v)) [0..<n]) res,
    samples = sm @ map (line_walk ax ay (u, v)) [0..<n]\<rparr>"
proof (induction n)
  case 0
  show ?case by (simp add: line_walk_def)
next
  case (Suc n)
  let ?f = "line_step ax ay r g bl"
  let ?s0 = "\<lparr>cur_x = u, cur_y = v, target = res, samples = sm\<rparr>"
  have "(?f ^^ Suc n) ?s0 = ?f ((?f ^^ n) ?s0)"
    by simp
  also have "\<dots> = ?f \<lparr>cur_x = fst (line_walk ax ay (u, v) n), cur_y = snd (line_walk ax ay (u, v) n),
                        target = fold (plot_sample r g bl) (map (line_walk ax ay (u, v)) [0..<n]) res,
                        samples = sm @ map (line_walk ax ay (u, v)) [0..<n]\<rparr>"
    by (simp only: Suc)
  also have "\<dots> = \<lparr>cur_x = fst (line_walk ax ay (u, v) (Suc n)),
                     cur_y = snd (line_walk ax ay (u, v) (Suc n)),
                     target = fold (plot_sample r g bl) (map (line_walk ax ay (u, v)) [0..<Suc n]) res,
                     samples = sm @ map (line_walk ax ay (u, v)) [0..<Suc n]\<rparr>"
    by (simp add: line_step_def plot_sample_def line_walk_Suc)
  finally show ?case .
qed




lemma line_run_eq:
  "line_run res x1 y1 x2 y2 r g b p =
     (let l = line_length x1 y1 x2 y2 p;
          ax = ddiv (dsub x2 x1) l;
          ay = ddiv (dsub y2 y1) l;
          pts = map (line_walk ax ay (x1, y1)) [0..<sample_count l]
      in if line_ends l
         then Some \<lparr>cur_x = fst (line_walk ax ay (x1, y1) (sample_count l)),
                    cur_y = snd (line_walk ax ay (x1, y1) (sample_count l)),
                    target = fold (plot_sample r g b) pts res,
                    samples = pts\<rparr>
         else None)"
  by (cases "line_length x1 y1 x2 y2 p")
    (simp_all add: line_run_def Let_def dfor_zero line_steps line_walk_def sample_count_def)




section \<open>Lines: samples and writes\<close>



text \<open>
  Rounding decides the number of samples: from \<open>(0,0)\<close> to \<open>(5,0)\<close> with \<open>p\<close> the double of
  \<open>0.2\<close>, which is above one fifth, the product \<open>5 * p\<close> rounds to \<open>1\<close> and one sample is
  taken.
\<close>

lemma line_rounding_example:
  "line_length (Fin 0) (Fin 0) (Fin 5) (Fin 0) (3602879701896397 / 2 ^ 54) = Fin 1 \<and>
   line_samples res (Fin 0) (Fin 0) (Fin 5) (Fin 0) r g b (3602879701896397 / 2 ^ 54) =
     Some [(Fin 0, Fin 0)]"
proof -
  have s: "sqrt 25 = 5"
    using real_sqrt_abs [of 5] by simp
  have "rd (5 * (3602879701896397 / 2 ^ 54)) = Fin (of_int (2 ^ 52) * 2 powi (0 - 52))"
    by (rule rd_eval) (simp_all add: round_even_def Let_def power_int_minus)
  then have "rd (18014398509481985 / 18014398509481984) = Fin 1"
    by (simp add: power_int_minus)
  then have l: "line_length (Fin 0) (Fin 0) (Fin 5) (Fin 0) (3602879701896397 / 2 ^ 54) = Fin 1"
    by (simp add: line_length_def s clamp_def tenth_def)
  have "line_samples res (Fin 0) (Fin 0) (Fin 5) (Fin 0) r g b (3602879701896397 / 2 ^ 54) =
     Some [(Fin 0, Fin 0)]"
    unfolding line_samples_def line_run_eq Let_def l
    by (simp add: line_ends_def sample_count_def line_walk_def)
  with l show ?thesis
    by (intro conjI)
qed

text \<open>
  Rounding also moves the samples: from \<open>(1,0)\<close> to \<open>(6,0)\<close> with \<open>p = 0.75\<close> the length
  is \<open>3.75\<close>, the step is the double nearest to \<open>4/3\<close>, and the fourth sample lies below
  \<open>5\<close>, in column 4.
\<close>

lemma line_drift_example:
  "line_samples res (Fin 1) (Fin 0) (Fin 6) (Fin 0) r g b (3 / 4) =
     Some [(Fin 1, Fin 0),
           (Fin (5254199565265578 / 2 ^ 51), Fin 0),
           (Fin (8256599316845908 / 2 ^ 51), Fin 0),
           (Fin (5629499534213119 / 2 ^ 50), Fin 0)] \<and>
   5629499534213119 / 2 ^ 50 < (5::real)"
proof -
  define a :: real where "a = 6004799503160661 / 2 ^ 52"
  define b1 :: real where "b1 = 5254199565265578 / 2 ^ 51"
  define b2 :: real where "b2 = 8256599316845908 / 2 ^ 51"
  define b3 :: real where "b3 = 5629499534213119 / 2 ^ 50"
  have s: "sqrt 25 = 5"
    using real_sqrt_abs [of 5] by simp
  have "rd (of_int 15 * 2 powi (- 2)) = Fin (of_int 15 * 2 powi (- 2))"
    by (rule rd_dyadic) simp_all
  then have r0: "rd (15 / 4) = Fin (15 / 4)"
    by (simp add: power_int_minus)
  have l: "line_length (Fin 1) (Fin 0) (Fin 6) (Fin 0) (3 / 4) = Fin (15 / 4)"
    by (simp add: line_length_def clamp_def tenth_def s r0)
  have "rd (4 / 3) = Fin (of_int 6004799503160661 * 2 powi (0 - 52))"
    by (rule rd_eval) (simp_all add: round_even_def Let_def power_int_minus)
  then have "rd (4 / 3) = Fin a"
    by (simp add: a_def power_int_minus)
  then have ax: "ddiv (dsub (Fin 6) (Fin 1)) (Fin (15 / 4)) = Fin a"
    by simp
  have ay: "ddiv (dsub (Fin 0) (Fin 0)) (Fin (15 / 4)) = Fin 0"
    by simp
  have "rd (1 + 6004799503160661 / 2 ^ 52) = Fin (of_int 5254199565265578 * 2 powi (1 - 52))"
    by (rule rd_eval) (simp_all add: round_even_def Let_def power_int_minus)
  then have d1: "dadd (Fin 1) (Fin a) = Fin b1"
    by (simp add: a_def b1_def power_int_minus)
  have "rd (5254199565265578 / 2 ^ 51 + 6004799503160661 / 2 ^ 52) =
          Fin (of_int 8256599316845908 * 2 powi (1 - 52))"
    by (rule rd_eval) (simp_all add: round_even_def Let_def power_int_minus)
  then have d2: "dadd (Fin b1) (Fin a) = Fin b2"
    by (simp add: a_def b1_def b2_def power_int_minus)
  have "rd (8256599316845908 / 2 ^ 51 + 6004799503160661 / 2 ^ 52) =
          Fin (of_int 5629499534213119 * 2 powi (2 - 52))"
    by (rule rd_eval) (simp_all add: round_even_def Let_def power_int_minus)
  then have d3: "dadd (Fin b2) (Fin a) = Fin b3"
    by (simp add: a_def b2_def b3_def power_int_minus)
  have z: "dadd (Fin 0) (Fin 0) = Fin 0"
    by simp
  have four: "[0..<4] = [0, Suc 0, Suc (Suc 0), Suc (Suc (Suc 0))]"
    by (simp add: upt_rec)
  have walk: "map (line_walk (Fin a) (Fin 0) (Fin 1, Fin 0)) [0..<4] =
                [(Fin 1, Fin 0), (Fin b1, Fin 0), (Fin b2, Fin 0), (Fin b3, Fin 0)]"
    unfolding four by (simp add: line_walk_def d1 d2 d3 z del: dadd.simps(1))
  have e: "line_ends (Fin (15 / 4))" and n: "sample_count (Fin (15 / 4)) = 4"
    by (simp_all add: line_ends_def sample_count_def)
  have "line_samples res (Fin 1) (Fin 0) (Fin 6) (Fin 0) r g b (3 / 4) =
          Some [(Fin 1, Fin 0), (Fin b1, Fin 0), (Fin b2, Fin 0), (Fin b3, Fin 0)]"
    by (simp only: line_samples_def line_run_eq Let_def l ax ay e n if_True walk option.map line_state.simps)
  moreover have "b3 < 5"
    by (simp add: b3_def)
  ultimately show ?thesis
    by (simp only: b1_def b2_def b3_def)
qed

text \<open>
  Claim C3. For a segment of length zero the quotient of line 100 is \<open>NaN\<close>, but the loop
  takes no sample: nothing is handed to \<open>bmp_resource_set_pixel\<close>, the resource is returned
  as it was given, and the result is true. The same holds when the end points are equal
  and not finite, the length being \<open>NaN\<close> then.
\<close>

theorem line_zero_length:
  "line_length (Fin x1) (Fin y1) (Fin x1) (Fin y1) p = Fin 0 \<and>
   ddiv (dsub (Fin x1) (Fin x1)) (line_length (Fin x1) (Fin y1) (Fin x1) (Fin y1) p) = NaN \<and>
   line_samples res (Fin x1) (Fin y1) (Fin x1) (Fin y1) r g b p = Some [] \<and>
   bmp_plot_line res (Fin x1) (Fin y1) (Fin x1) (Fin y1) r g b p = Some (True, res) \<and>
   line_samples res u v u v r g b p = Some [] \<and>
   bmp_plot_line res u v u v r g b p = Some (True, res)"
proof -
  have l: "line_length (Fin x1) (Fin y1) (Fin x1) (Fin y1) p = Fin 0"
    by (simp add: line_length_def)
  have g: "line_length u v u v p = Fin 0 \<or> line_length u v u v p = NaN" for u v
    by (cases u; cases v) (simp_all add: line_length_def)
  have run: "line_run res u v u v r g b p =
               Some \<lparr>cur_x = u, cur_y = v, target = res, samples = []\<rparr>" for u v
    using g [of u v] by (auto simp add: line_run_def Let_def dfor_done)
  from l run [of u v] run [of "Fin x1" "Fin y1"] show ?thesis
    by (simp add: line_samples_def bmp_plot_line_def)
qed

theorem line_zero_length_witness:
  "line_samples \<lparr>width = 10, height = 10, pixels = \<lambda>q. (0, 0, 0)\<rparr>
     (Fin 2) (Fin 3) (Fin 2) (Fin 3) 255 255 255 1 = Some [] \<and>
   bmp_plot_line \<lparr>width = 10, height = 10, pixels = \<lambda>q. (0, 0, 0)\<rparr>
     (Fin 2) (Fin 3) (Fin 2) (Fin 3) 255 255 255 1 =
     Some (True, \<lparr>width = 10, height = 10, pixels = \<lambda>q. (0, 0, 0)\<rparr>)"
  using line_zero_length
    [where ?x1.0 = 2 and ?y1.0 = 3 and u = "Fin 2" and v = "Fin 3" and p = 1
       and r = 255 and g = 255 and b = 255
       and res = "\<lparr>width = 10, height = 10, pixels = \<lambda>q. (0, 0, 0)\<rparr>"]
  by simp

section \<open>Text: the loop nest\<close>

lemma fold_invariant:
  "(\<And>k s. k \<in> set ks \<Longrightarrow> I s \<Longrightarrow> I (f k s)) \<Longrightarrow> I s \<Longrightarrow> I (fold f ks s)"
  by (induction ks arbitrary: s) simp_all

lemma for_loop_invariant_upto:
  assumes "\<And>k s. a \<le> k \<Longrightarrow> of_int k < n \<Longrightarrow> I s \<Longrightarrow> I (body (of_int k) s)" and "I s"
  shows "I (for_loop (of_int a) n body s)"
proof -
  have "I (fold (\<lambda>k. body (of_int k)) [a..\<lceil>n\<rceil> - 1] s)"
  proof (rule fold_invariant)
    fix k s assume "k \<in> set [a..\<lceil>n\<rceil> - 1]" and "I s"
    then show "I (body (of_int k) s)"
      by (intro assms(1)) (simp_all add: less_ceiling_iff [symmetric])
  qed (rule assms(2))
  then show ?thesis
    by (simp add: for_loop_upto)
qed

lemma same_dims_refl: "same_dims st st"
  by (simp add: same_dims_def)

lemma update_dims:
  assumes "r < length st"
  shows "width (st[p := bmp_resource_set_pixel (st ! p) a b c0 c1 c2] ! r) = width (st ! r)"
    and "height (st[p := bmp_resource_set_pixel (st ! p) a b c0 c1 c2] ! r) = height (st ! r)"
  using assms by (cases "r = p"; simp add: bmp_resource_set_pixel_def)+

lemma text_write_dims:
  "same_dims st0 st \<Longrightarrow> same_dims st0 (text_write e xo yo ly lx col st)"
  by (simp add: same_dims_def text_write_def update_dims)

lemma text_pixel_ok:
  assumes "drawing st0 s" and "env_c e < length st0"
    and "0 \<le> cx + lx" "cx + lx < of_int (width (st0 ! env_c e))"
    and "0 \<le> ly" "ly < of_int (height (st0 ! env_c e))"
  shows "drawing st0 (text_pixel e xo yo (Fin cx) ly lx s)"
proof -
  from assms(1) obtain st where st: "s = Some st" "same_dims st0 st"
    by (auto simp: drawing_def)
  have "width (st ! env_c e) = width (st0 ! env_c e)" "height (st ! env_c e) = height (st0 ! env_c e)"
    using st(2) assms(2) by (simp_all add: same_dims_def)
  then have "bmp_resource_get_pixel (st ! env_c e) (js_add (Fin lx) (Fin cx)) (Fin ly)
               = Some (pixels (st ! env_c e) (cell (Fin (lx + cx)) (Fin ly)))"
    using assms(3-6) by (simp add: bmp_resource_get_pixel_def add.commute)
  then show ?thesis
    using st by (auto simp: text_pixel_def drawing_def text_write_dims split: option.splits)
qed

lemma draw_glyph_ok:
  assumes dims: "same_dims st0 st" and c: "env_c e < length st0"
    and cell: "0 < font_width e \<Longrightarrow>
               \<exists>cx. cxo = Fin cx \<and> 0 \<le> cx \<and> cx + font_width e \<le> of_int (width (st0 ! env_c e))"
    and rows: "font_height e \<le> of_int (height (st0 ! env_c e))"
  shows "drawing st0 (draw_glyph e xo yo cxo st)"
proof -
  have init: "drawing st0 (Some st)"
    using dims by (simp add: drawing_def)
  show ?thesis
  proof (cases "0 < font_width e")
    case True
    with cell obtain cx where cx: "cxo = Fin cx" "0 \<le> cx"
        "cx + font_width e \<le> of_int (width (st0 ! env_c e))"
      by blast
    have row: "drawing st0 (for_loop (of_int 0) (font_width e)
                 (\<lambda>lx. text_pixel e xo yo (Fin cx) (of_int m) lx) s)"
      if m: "0 \<le> m" "of_int m < font_height e" and s: "drawing st0 s" for m s
    proof (rule for_loop_invariant_upto)
      fix k :: int and s' assume k: "0 \<le> k" "of_int k < font_width e" and s': "drawing st0 s'"
      show "drawing st0 (text_pixel e xo yo (Fin cx) (of_int m) (of_int k) s')"
        using s' c cx k m rows by (intro text_pixel_ok) simp_all
    qed (rule s)
    have "drawing st0 (for_loop (of_int 0) (font_height e)
            (\<lambda>ly. for_loop 0 (font_width e) (\<lambda>lx. text_pixel e xo yo (Fin cx) ly lx)) (Some st))"
      by (rule for_loop_invariant_upto) (use row init in simp_all)
    then show ?thesis
      by (simp add: draw_glyph_def cx(1))
  next
    case False
    then have "for_loop 0 (font_width e) (\<lambda>lx. text_pixel e xo yo cxo ly lx) = (\<lambda>s. s)" for ly
      by (intro ext) (simp add: for_loop_done)
    then have "draw_glyph e xo yo cxo st = for_loop 0 (font_height e) (\<lambda>ly s. s) (Some st)"
      by (simp add: draw_glyph_def)
    also have "drawing st0 \<dots>"
      by (rule for_loop_invariant) (use init in simp_all)
    finally show ?thesis .
  qed
qed


lemma glyph_cell_fits:
  assumes e: "e = text_setup st0 p c x wrap fg bg" and pos: "0 < font_width e"
  shows "\<exists>cx. (if char_code < 0x20 \<or> 0x7E < char_code
               then js_mul (Fin (font_width e)) (js_add (font_chars e) (Fin (- 1)))
               else Fin ((of_nat char_code - 32) * font_width e)) = Fin cx \<and>
              0 \<le> cx \<and> cx + font_width e \<le> of_int (width (st0 ! env_c e))"
proof -
  let ?W = "real_of_int (width (st0 ! c))"
  have fw: "font_width e = ?W / 96" and fc: "font_chars e = js_div ?W (?W / 96)"
    and c: "env_c e = c"
    by (simp_all add: e text_setup_def Let_def)
  from pos fw have W: "0 < ?W"
    by simp
  show ?thesis
  proof (cases "char_code < 0x20 \<or> 0x7E < char_code")
    case True
    let ?cx = "?W / 96 * 95"
    have "js_mul (Fin (font_width e)) (js_add (font_chars e) (Fin (- 1))) = Fin ?cx"
      using W by (simp add: fw fc)
    with True have "(if char_code < 0x20 \<or> 0x7E < char_code
               then js_mul (Fin (font_width e)) (js_add (font_chars e) (Fin (- 1)))
               else Fin ((of_nat char_code - 32) * font_width e)) = Fin ?cx"
      by simp
    moreover have "0 \<le> ?cx" "?cx + font_width e \<le> of_int (width (st0 ! env_c e))"
      using W by (simp_all add: fw c)
    ultimately show ?thesis
      by blast
  next
    case False
    let ?cx = "(real char_code - 32) * font_width e"
    from False have lo: "0 \<le> real char_code - 32" and hi: "real char_code - 32 \<le> 94"
      by simp_all
    have "?cx \<le> 94 * font_width e"
      using hi pos by (intro mult_right_mono) simp_all
    moreover have "96 * font_width e = of_int (width (st0 ! env_c e))"
      by (simp add: fw c)
    ultimately have "?cx + font_width e \<le> of_int (width (st0 ! env_c e))"
      using pos by linarith
    moreover have "0 \<le> ?cx"
      using lo pos by (intro mult_nonneg_nonneg) simp_all
    moreover from False have "(if char_code < 0x20 \<or> 0x7E < char_code
               then js_mul (Fin (font_width e)) (js_add (font_chars e) (Fin (- 1)))
               else Fin ((of_nat char_code - 32) * font_width e)) = Fin ?cx"
      by simp
    ultimately show ?thesis
      by blast
  qed
qed

lemma text_char_ok:
  assumes e: "e = text_setup st0 p c x wrap fg bg"
    and refs: "p < length st0" "c < length st0"
    and dims: "same_dims st0 (heap s)"
  shows "\<exists>s'. text_char e char_code s = Some s' \<and> same_dims st0 (heap s') \<and>
           (x_offset s', y_offset s', glyphs s') =
             cursor_step e (of_int (width (st0 ! p))) char_code (x_offset s, y_offset s, glyphs s)"
proof (cases "char_code = 10 \<or> char_code = 13")
  case True
  then have "text_char e char_code s = Some (next_row e s)"
    by (auto simp: text_char_def)
  with True dims show ?thesis
    by (auto simp: next_row_def cursor_step_def)
next
  case False
  let ?cxo = "if char_code < 0x20 \<or> 0x7E < char_code
               then js_mul (Fin (font_width e)) (js_add (font_chars e) (Fin (- 1)))
               else Fin ((of_nat char_code - 32) * font_width e)"
  let ?s1 = "if env_wrap e \<and> of_int (width (heap s ! env_p e)) < x_offset s + font_width e
             then next_row e s else s"
  have envs: "env_p e = p" "env_c e = c"
    "font_height e = of_int (height (st0 ! c))"
    by (simp_all add: e text_setup_def Let_def)
  have wd: "width (heap s ! env_p e) = width (st0 ! p)"
    using dims refs by (simp add: same_dims_def envs)
  have h1: "heap ?s1 = heap s"
    by (simp add: next_row_def)
  have "drawing st0 (draw_glyph e (x_offset ?s1) (y_offset ?s1) ?cxo (heap ?s1))"
  proof (rule draw_glyph_ok)
    show "same_dims st0 (heap ?s1)"
      using dims h1 by simp
    show "env_c e < length st0"
      using refs by (simp add: envs)
    show "font_height e \<le> of_int (height (st0 ! env_c e))"
      by (simp add: envs)
    show "\<exists>cx. ?cxo = Fin cx \<and> 0 \<le> cx \<and> cx + font_width e \<le> of_int (width (st0 ! env_c e))"
      if "0 < font_width e"
      using e that by (rule glyph_cell_fits)
  qed
  then obtain st' where st': "draw_glyph e (x_offset ?s1) (y_offset ?s1) ?cxo (heap ?s1) = Some st'"
      "same_dims st0 st'"
    by (auto simp: drawing_def)
  have "text_char e char_code s =
          Some (?s1\<lparr>heap := st', glyphs := glyphs ?s1 @ [(x_offset ?s1, y_offset ?s1)],
                    x_offset := x_offset ?s1 + font_width e\<rparr>)"
    using False st'(1) by (simp add: text_char_def Let_def)
  with False st'(2) show ?thesis
    by (auto simp: cursor_step_def next_row_def wd)
qed

lemma text_loop_cursor:
  assumes e: "e = text_setup st0 p c x wrap fg bg"
    and refs: "p < length st0" "c < length st0"
  shows "same_dims st0 (heap s) \<Longrightarrow>
         \<exists>s'. text_loop e str s = Some s' \<and> same_dims st0 (heap s') \<and>
           (x_offset s', y_offset s', glyphs s') =
             fold (cursor_step e (of_int (width (st0 ! p)))) str (x_offset s, y_offset s, glyphs s)"
proof (induction str arbitrary: s)
  case Nil
  then show ?case by simp
next
  case (Cons ch rest)
  from text_char_ok [OF e refs Cons.prems, of ch]
  obtain s1 where s1: "text_char e ch s = Some s1" "same_dims st0 (heap s1)"
      "(x_offset s1, y_offset s1, glyphs s1) =
         cursor_step e (of_int (width (st0 ! p))) ch (x_offset s, y_offset s, glyphs s)"
    by blast
  from Cons.IH [OF s1(2)] obtain s' where s': "text_loop e rest s1 = Some s'"
      "same_dims st0 (heap s')"
      "(x_offset s', y_offset s', glyphs s') =
         fold (cursor_step e (of_int (width (st0 ! p)))) rest (x_offset s1, y_offset s1, glyphs s1)"
    by blast
  from s1 s' show ?case
    by simp
qed

lemma text_run_cursor:
  assumes refs: "p < length st" "c < length st"
  shows "\<exists>s'. text_run st p c x y str wrap fg bg = Some s' \<and> same_dims st (heap s') \<and>
           (x_offset s', y_offset s', glyphs s') =
             fold (cursor_step (text_setup st p c x wrap fg bg) (of_int (width (st ! p)))) str
               (x, y, [])"
proof -
  have "same_dims st (heap \<lparr>x_offset = x, y_offset = y, heap = st, glyphs = []\<rparr>)"
    by (simp add: same_dims_refl)
  from text_loop_cursor [OF refl refs this] show ?thesis
    by (simp add: text_run_def)
qed

section \<open>Text: glyph pixels\<close>

text \<open>
  Claim C1, as amended. A glyph pixel whose atlas colour is pure white is written with the
  foreground colour when each of \<open>fr, fg, fb\<close> differs from \<open>-1\<close>, and is skipped
  otherwise; a pixel whose atlas colour is pure black is skipped when \<open>br\<close> or \<open>bg\<close> is
  \<open>-1\<close> and written with the background colour when each of \<open>br, bg, bb\<close> differs from
  \<open>-1\<close>; a pixel of any other atlas colour is written with that colour. Writing is
  \<open>text_write\<close>, the clipped write of lines 281 to 290; skipping leaves the store as it is.
\<close>

theorem glyph_pixel_classification:
  assumes "bmp_resource_get_pixel (st ! env_c e) (js_add (Fin lx) cxo) (Fin ly) = Some pixel_c"
    and "env_fg e = (fr, fg, fb)" and "env_bg e = (br, bg, bb)"
  shows "(pixel_c = (255, 255, 255) \<longrightarrow>
            text_pixel e xo yo cxo ly lx (Some st) =
              (if fr \<noteq> - 1 \<and> fg \<noteq> - 1 \<and> fb \<noteq> - 1
               then Some (text_write e xo yo ly lx (fr, fg, fb) st) else Some st)) \<and>
         (pixel_c = (0, 0, 0) \<longrightarrow>
            (br = - 1 \<or> bg = - 1 \<longrightarrow> text_pixel e xo yo cxo ly lx (Some st) = Some st) \<and>
            (br \<noteq> - 1 \<and> bg \<noteq> - 1 \<and> bb \<noteq> - 1 \<longrightarrow>
               text_pixel e xo yo cxo ly lx (Some st) =
                 Some (text_write e xo yo ly lx (br, bg, bb) st))) \<and>
         (pixel_c \<noteq> (255, 255, 255) \<and> pixel_c \<noteq> (0, 0, 0) \<longrightarrow>
            text_pixel e xo yo cxo ly lx (Some st) = Some (text_write e xo yo ly lx pixel_c st))"
  using assms
  by (cases pixel_c) (auto simp: text_pixel_def text_color_def glyph_color_def)


lemma for_loop_once: "for_loop 0 1 body s = body 0 s"
  by (simp add: for_loop_step for_loop_done)

lemma for_loop_twice: "for_loop 0 2 body s = body 1 (body 0 s)"
  by (simp add: for_loop_step for_loop_done)

lemmas text_unfold =
  bmp_plot_text_def text_run_def text_setup_def text_char_def draw_glyph_def Let_def
  for_loop_once text_pixel_def text_color_def glyph_color_def text_write_def
  bmp_resource_get_pixel_def bmp_resource_set_pixel_def

theorem glyph_pixel_classification_witness:
  "text_pixel (text_setup [\<lparr>width = 2, height = 2, pixels = \<lambda>q. (7, 7, 7)\<rparr>,
                           \<lparr>width = 96, height = 1, pixels = \<lambda>q. (255, 255, 255)\<rparr>]
                 0 1 0 True (255, 0, 0) (- 1, - 1, - 1)) 0 0 (Fin 33) 0 0
     (Some [\<lparr>width = 2, height = 2, pixels = \<lambda>q. (7, 7, 7)\<rparr>,
            \<lparr>width = 96, height = 1, pixels = \<lambda>q. (255, 255, 255)\<rparr>]) =
   Some [\<lparr>width = 2, height = 2, pixels = (\<lambda>q. (7, 7, 7))((0, 0) := (255, 0, 0))\<rparr>,
         \<lparr>width = 96, height = 1, pixels = \<lambda>q. (255, 255, 255)\<rparr>] \<and>
   text_pixel (text_setup [\<lparr>width = 2, height = 2, pixels = \<lambda>q. (7, 7, 7)\<rparr>,
                           \<lparr>width = 96, height = 1, pixels = \<lambda>q. (255, 255, 255)\<rparr>]
                 0 1 0 True (255, - 1, 0) (- 1, - 1, - 1)) 0 0 (Fin 33) 0 0
     (Some [\<lparr>width = 2, height = 2, pixels = \<lambda>q. (7, 7, 7)\<rparr>,
            \<lparr>width = 96, height = 1, pixels = \<lambda>q. (255, 255, 255)\<rparr>]) =
   Some [\<lparr>width = 2, height = 2, pixels = \<lambda>q. (7, 7, 7)\<rparr>,
         \<lparr>width = 96, height = 1, pixels = \<lambda>q. (255, 255, 255)\<rparr>] \<and>
   text_pixel (text_setup [\<lparr>width = 2, height = 2, pixels = \<lambda>q. (7, 7, 7)\<rparr>,
                           \<lparr>width = 96, height = 1, pixels = \<lambda>q. (0, 0, 0)\<rparr>]
                 0 1 0 True (255, 0, 0) (1, 2, 3)) 0 0 (Fin 33) 0 0
     (Some [\<lparr>width = 2, height = 2, pixels = \<lambda>q. (7, 7, 7)\<rparr>,
            \<lparr>width = 96, height = 1, pixels = \<lambda>q. (0, 0, 0)\<rparr>]) =
   Some [\<lparr>width = 2, height = 2, pixels = (\<lambda>q. (7, 7, 7))((0, 0) := (1, 2, 3))\<rparr>,
         \<lparr>width = 96, height = 1, pixels = \<lambda>q. (0, 0, 0)\<rparr>] \<and>
   text_pixel (text_setup [\<lparr>width = 2, height = 2, pixels = \<lambda>q. (7, 7, 7)\<rparr>,
                           \<lparr>width = 96, height = 1, pixels = \<lambda>q. (0, 0, 0)\<rparr>]
                 0 1 0 True (255, 0, 0) (1, - 1, 3)) 0 0 (Fin 33) 0 0
     (Some [\<lparr>width = 2, height = 2, pixels = \<lambda>q. (7, 7, 7)\<rparr>,
            \<lparr>width = 96, height = 1, pixels = \<lambda>q. (0, 0, 0)\<rparr>]) =
   Some [\<lparr>width = 2, height = 2, pixels = \<lambda>q. (7, 7, 7)\<rparr>,
         \<lparr>width = 96, height = 1, pixels = \<lambda>q. (0, 0, 0)\<rparr>] \<and>
   text_pixel (text_setup [\<lparr>width = 2, height = 2, pixels = \<lambda>q. (7, 7, 7)\<rparr>,
                           \<lparr>width = 96, height = 1, pixels = \<lambda>q. (9, 9, 9)\<rparr>]
                 0 1 0 True (255, 0, 0) (- 1, - 1, - 1)) 0 0 (Fin 33) 0 0
     (Some [\<lparr>width = 2, height = 2, pixels = \<lambda>q. (7, 7, 7)\<rparr>,
            \<lparr>width = 96, height = 1, pixels = \<lambda>q. (9, 9, 9)\<rparr>]) =
   Some [\<lparr>width = 2, height = 2, pixels = (\<lambda>q. (7, 7, 7))((0, 0) := (9, 9, 9))\<rparr>,
         \<lparr>width = 96, height = 1, pixels = \<lambda>q. (9, 9, 9)\<rparr>]"
proof -
  let ?dst = "\<lparr>width = 2, height = 2, pixels = \<lambda>q. (7::int, 7::int, 7::int)\<rparr>"
  let ?white = "\<lparr>width = 96, height = 1, pixels = \<lambda>q. (255::int, 255::int, 255::int)\<rparr>"
  let ?black = "\<lparr>width = 96, height = 1, pixels = \<lambda>q. (0::int, 0::int, 0::int)\<rparr>"
  let ?grey = "\<lparr>width = 96, height = 1, pixels = \<lambda>q. (9::int, 9::int, 9::int)\<rparr>"
  let ?e1 = "text_setup [?dst, ?white] 0 1 0 True (255, 0, 0) (- 1, - 1, - 1)"
  let ?e2 = "text_setup [?dst, ?white] 0 1 0 True (255, - 1, 0) (- 1, - 1, - 1)"
  let ?e3 = "text_setup [?dst, ?black] 0 1 0 True (255, 0, 0) (1, 2, 3)"
  let ?e4 = "text_setup [?dst, ?black] 0 1 0 True (255, 0, 0) (1, - 1, 3)"
  let ?e5 = "text_setup [?dst, ?grey] 0 1 0 True (255, 0, 0) (- 1, - 1, - 1)"
  have 1: "text_pixel ?e1 0 0 (Fin 33) 0 0 (Some [?dst, ?white]) =
             Some (text_write ?e1 0 0 0 0 (255, 0, 0) [?dst, ?white])"
    using glyph_pixel_classification
      [where e = ?e1 and st = "[?dst, ?white]" and lx = 0 and ly = 0 and cxo = "Fin 33"
         and xo = 0 and yo = 0 and pixel_c = "(255, 255, 255)"
         and fr = 255 and fg = 0 and fb = 0 and br = "- 1" and bg = "- 1" and bb = "- 1"]
    by (simp add: text_setup_def bmp_resource_get_pixel_def)
  have 2: "text_pixel ?e2 0 0 (Fin 33) 0 0 (Some [?dst, ?white]) = Some [?dst, ?white]"
    using glyph_pixel_classification
      [where e = ?e2 and st = "[?dst, ?white]" and lx = 0 and ly = 0 and cxo = "Fin 33"
         and xo = 0 and yo = 0 and pixel_c = "(255, 255, 255)"
         and fr = 255 and fg = "- 1" and fb = 0 and br = "- 1" and bg = "- 1" and bb = "- 1"]
    by (simp add: text_setup_def bmp_resource_get_pixel_def)
  have 3: "text_pixel ?e3 0 0 (Fin 33) 0 0 (Some [?dst, ?black]) =
             Some (text_write ?e3 0 0 0 0 (1, 2, 3) [?dst, ?black])"
    using glyph_pixel_classification
      [where e = ?e3 and st = "[?dst, ?black]" and lx = 0 and ly = 0 and cxo = "Fin 33"
         and xo = 0 and yo = 0 and pixel_c = "(0, 0, 0)"
         and fr = 255 and fg = 0 and fb = 0 and br = 1 and bg = 2 and bb = 3]
    by (simp add: text_setup_def bmp_resource_get_pixel_def)
  have 4: "text_pixel ?e4 0 0 (Fin 33) 0 0 (Some [?dst, ?black]) = Some [?dst, ?black]"
    using glyph_pixel_classification
      [where e = ?e4 and st = "[?dst, ?black]" and lx = 0 and ly = 0 and cxo = "Fin 33"
         and xo = 0 and yo = 0 and pixel_c = "(0, 0, 0)"
         and fr = 255 and fg = 0 and fb = 0 and br = 1 and bg = "- 1" and bb = 3]
    by (simp add: text_setup_def bmp_resource_get_pixel_def)
  have 5: "text_pixel ?e5 0 0 (Fin 33) 0 0 (Some [?dst, ?grey]) =
             Some (text_write ?e5 0 0 0 0 (9, 9, 9) [?dst, ?grey])"
    using glyph_pixel_classification
      [where e = ?e5 and st = "[?dst, ?grey]" and lx = 0 and ly = 0 and cxo = "Fin 33"
         and xo = 0 and yo = 0 and pixel_c = "(9, 9, 9)"
         and fr = 255 and fg = 0 and fb = 0 and br = "- 1" and bg = "- 1" and bb = "- 1"]
    by (simp add: text_setup_def bmp_resource_get_pixel_def)
  have w: "text_write (text_setup [?dst, a] 0 1 0 True f b) 0 0 0 0 col [?dst, a] =
             [\<lparr>width = 2, height = 2, pixels = (\<lambda>q. (7, 7, 7))((0, 0) := col)\<rparr>, a]" for a f b col
    by (cases col) (simp add: text_write_def text_setup_def bmp_resource_set_pixel_def)
  from 1 2 3 4 5 show ?thesis
    by (simp only: w)
qed

text \<open>
  The claim as stated fails in two ways. The test of the source is against \<open>-1\<close>, not
  against zero: the foreground \<open>(-2, 0, 0)\<close> is not skipped. And line 271 tests \<open>bg\<close> a
  second time where \<open>bb\<close> is meant: the background \<open>(0, 0, -1)\<close> is not skipped either.
\<close>

theorem glyph_pixel_counterexample:
  "(\<exists>st'. bmp_plot_text [\<lparr>width = 2, height = 2, pixels = \<lambda>q. (7, 7, 7)\<rparr>,
                          \<lparr>width = 96, height = 1, pixels = \<lambda>q. (255, 255, 255)\<rparr>]
            0 1 0 0 [65] True (- 2, 0, 0) (- 1, - 1, - 1) = Some (True, st') \<and>
          pixels (st' ! 0) (0, 0) = (- 2, 0, 0)) \<and>
   (\<exists>st'. bmp_plot_text [\<lparr>width = 2, height = 2, pixels = \<lambda>q. (7, 7, 7)\<rparr>,
                          \<lparr>width = 96, height = 1, pixels = \<lambda>q. (0, 0, 0)\<rparr>]
            0 1 0 0 [65] True (255, 255, 255) (0, 0, - 1) = Some (True, st') \<and>
          pixels (st' ! 0) (0, 0) = (0, 0, - 1))"
  by (simp add: text_unfold)


section \<open>Text: the pixels of a glyph\<close>

lemma text_pixel_paints:
  assumes p: "p < length st0" and c: "c < length st0" and pc: "p \<noteq> c"
    and e: "env_p e = p" "env_c e = c"
    and rd: "0 \<le> i + CX" "i + CX < width (st0 ! c)" "0 \<le> j" "j < height (st0 ! c)"
  shows "paints (glyph_inv st0 p) (dest_img p)
           (if 0 \<le> X + i \<and> X + i < width (st0 ! p) \<and> 0 \<le> Y + j \<and> Y + j < height (st0 ! p) \<and>
               text_color e (pixels (st0 ! c) (i + CX, j)) \<noteq> None
            then {(X + i, Y + j)} else {})
           (\<lambda>q. the (text_color e (pixels (st0 ! c) (fst q - X + CX, snd q - Y))))
           (text_pixel e (of_int X) (of_int Y) (Fin (of_int CX)) (of_int j) (of_int i))"
proof (rule paintsI)
  fix s assume "glyph_inv st0 p s"
  then obtain st where st: "s = Some st" "length st = length st0"
      "width (st ! p) = width (st0 ! p)" "height (st ! p) = height (st0 ! p)"
      "\<forall>r < length st0. r \<noteq> p \<longrightarrow> st ! r = st0 ! r"
    unfolding glyph_inv_def by blast
  from st(5) c pc have atlas: "st ! c = st0 ! c"
    by simp
  let ?px = "pixels (st0 ! c) (i + CX, j)"
  have "bmp_resource_get_pixel (st0 ! c) (Fin (of_int (i + CX))) (Fin (of_int j)) = Some ?px"
    using rd by (rule get_pixel_int)
  then have read: "bmp_resource_get_pixel (st ! env_c e) (Fin (real_of_int i + real_of_int CX))
                     (Fin (real_of_int j)) = Some ?px"
    by (simp add: e atlas)
  let ?f = "text_pixel e (of_int X) (of_int Y) (Fin (of_int CX)) (of_int j) (of_int i)"
  show "glyph_inv st0 p (?f s)"
  proof (cases "text_color e ?px")
    case None
    then have "?f s = Some st"
      by (simp add: text_pixel_def st(1) read)
    with st show ?thesis
      by (simp add: glyph_inv_def)
  next
    case (Some col)
    then have "?f s = Some (text_write e (of_int X) (of_int Y) (of_int j) (of_int i) col st)"
      by (simp add: text_pixel_def st(1) read)
    with st p show ?thesis
      by (auto simp add: glyph_inv_def text_write_def e nth_list_update)
  qed
  fix q
  show "dest_img p (?f s) q =
          (if q \<in> (if 0 \<le> X + i \<and> X + i < width (st0 ! p) \<and> 0 \<le> Y + j \<and> Y + j < height (st0 ! p) \<and>
               text_color e (pixels (st0 ! c) (i + CX, j)) \<noteq> None
            then {(X + i, Y + j)} else {})
           then the (text_color e (pixels (st0 ! c) (fst q - X + CX, snd q - Y)))
           else dest_img p s q)"
  proof (cases "text_color e ?px")
    case None
    then have "?f s = Some st"
      by (simp add: text_pixel_def st(1) read)
    with None show ?thesis
      by (simp add: st(1))
  next
    case (Some col)
    then have step: "?f s = Some (text_write e (of_int X) (of_int Y) (of_int j) (of_int i) col st)"
      by (simp add: text_pixel_def st(1) read)
    have w: "text_write e (of_int X) (of_int Y) (of_int j) (of_int i) col st =
               (if X + i < width (st0 ! p) \<and> Y + j < height (st0 ! p)
                then st[p := bmp_resource_set_pixel (st ! p) (Fin (of_int (X + i))) (Fin (of_int (Y + j)))
                               (fst col) (fst (snd col)) (snd (snd col))]
                else st)"
    proof -
      have "real_of_int X + real_of_int i < real_of_int (width (st0 ! p)) \<longleftrightarrow> X + i < width (st0 ! p)"
        "real_of_int Y + real_of_int j < real_of_int (height (st0 ! p)) \<longleftrightarrow> Y + j < height (st0 ! p)"
        by linarith+
      then show ?thesis
        by (simp add: text_write_def e st(3,4))
    qed
    show ?thesis
      unfolding step w dest_img_def using st p Some
      by (cases col) (auto simp add: set_pixel_pixels simp del: of_int_add)
  qed
qed

lemma draw_glyph_paints:
  assumes p: "p < length st0" and c: "c < length st0" and pc: "p \<noteq> c"
    and e: "env_p e = p" "env_c e = c" "font_width e = of_int K"
      "font_height e = of_int (height (st0 ! c))"
    and cell: "0 \<le> CX" "CX + K \<le> width (st0 ! c)"
  shows "paints (glyph_inv st0 p) (dest_img p)
           {(X + i, Y + j) | i j.
              0 \<le> i \<and> i < K \<and> 0 \<le> j \<and> j < height (st0 ! c) \<and>
              0 \<le> X + i \<and> X + i < width (st0 ! p) \<and> 0 \<le> Y + j \<and> Y + j < height (st0 ! p) \<and>
              text_color e (pixels (st0 ! c) (i + CX, j)) \<noteq> None}
           (\<lambda>q. the (text_color e (pixels (st0 ! c) (fst q - X + CX, snd q - Y))))
           (for_loop 0 (font_height e) (\<lambda>ly.
              for_loop 0 (font_width e) (\<lambda>lx.
                text_pixel e (of_int X) (of_int Y) (Fin (of_int CX)) ly lx)))"
proof -
  let ?P = "\<lambda>j i. if 0 \<le> X + i \<and> X + i < width (st0 ! p) \<and> 0 \<le> Y + j \<and> Y + j < height (st0 ! p) \<and>
               text_color e (pixels (st0 ! c) (i + CX, j)) \<noteq> None
            then {(X + i, Y + j)} else {}"
  let ?col = "\<lambda>q. the (text_color e (pixels (st0 ! c) (fst q - X + CX, snd q - Y)))"
  let ?H = "height (st0 ! c)"
  have inner: "paints (glyph_inv st0 p) (dest_img p)
                 (\<Union>i\<in>{i. 0 \<le> i \<and> real_of_int i < real_of_int K}. ?P j i) ?col
                 (for_loop (of_int 0) (of_int K) (\<lambda>lx.
                    text_pixel e (of_int X) (of_int Y) (Fin (of_int CX)) (of_int j) lx))"
    if j: "0 \<le> j" "real_of_int j < real_of_int ?H" for j
  proof (rule paints_for_loop)
    fix i :: int assume i: "0 \<le> i" "real_of_int i < real_of_int K"
    have "0 \<le> i + CX" "i + CX < width (st0 ! c)" "j < ?H"
      using i j cell by linarith+
    with p c pc e(1,2) j(1) show "paints (glyph_inv st0 p) (dest_img p) (?P j i) ?col
            (text_pixel e (of_int X) (of_int Y) (Fin (of_int CX)) (of_int j) (of_int i))"
      by (intro text_pixel_paints) simp_all
  qed
  have "paints (glyph_inv st0 p) (dest_img p)
          (\<Union>j\<in>{j. 0 \<le> j \<and> real_of_int j < real_of_int ?H}.
             \<Union>i\<in>{i. 0 \<le> i \<and> real_of_int i < real_of_int K}. ?P j i) ?col
          (for_loop (of_int 0) (of_int ?H) (\<lambda>ly.
             for_loop 0 (of_int K) (\<lambda>lx.
               text_pixel e (of_int X) (of_int Y) (Fin (of_int CX)) ly lx)))"
    by (rule paints_for_loop) (use inner in simp)
  moreover have "(\<Union>j\<in>{j. 0 \<le> j \<and> real_of_int j < real_of_int ?H}.
             \<Union>i\<in>{i. 0 \<le> i \<and> real_of_int i < real_of_int K}. ?P j i)
          = {(X + i, Y + j) | i j.
              0 \<le> i \<and> i < K \<and> 0 \<le> j \<and> j < height (st0 ! c) \<and>
              0 \<le> X + i \<and> X + i < width (st0 ! p) \<and> 0 \<le> Y + j \<and> Y + j < height (st0 ! p) \<and>
              text_color e (pixels (st0 ! c) (i + CX, j)) \<noteq> None}"
    by (auto split: if_splits)
  ultimately show ?thesis
    by (simp add: e)
qed

lemma draw_glyph_result:
  assumes p: "p < length st" and c: "c < length st" and pc: "p \<noteq> c"
    and e: "env_p e = p" "env_c e = c" "font_width e = of_int K"
      "font_height e = of_int (height (st ! c))" "env_fg e = fg" "env_bg e = bg"
    and cell: "0 \<le> CX" "CX + K \<le> width (st ! c)"
  shows "\<exists>st'. draw_glyph e (of_int X) (of_int Y) (Fin (of_int CX)) st = Some st' \<and>
           length st' = length st \<and>
           (\<forall>r < length st. r \<noteq> p \<longrightarrow> st' ! r = st ! r) \<and>
           width (st' ! p) = width (st ! p) \<and> height (st' ! p) = height (st ! p) \<and>
           pixels (st' ! p) =
             glyph_image (st ! c) fg bg (width (st ! p)) (height (st ! p)) K CX X Y (pixels (st ! p))"
proof -
  let ?nest = "for_loop 0 (font_height e) (\<lambda>ly.
              for_loop 0 (font_width e) (\<lambda>lx.
                text_pixel e (of_int X) (of_int Y) (Fin (of_int CX)) ly lx))"
  let ?A = "{(X + i, Y + j) | i j.
              0 \<le> i \<and> i < K \<and> 0 \<le> j \<and> j < height (st ! c) \<and>
              0 \<le> X + i \<and> X + i < width (st ! p) \<and> 0 \<le> Y + j \<and> Y + j < height (st ! p) \<and>
              text_color e (pixels (st ! c) (i + CX, j)) \<noteq> None}"
  let ?col = "\<lambda>q. the (text_color e (pixels (st ! c) (fst q - X + CX, snd q - Y)))"
  have paint: "paints (glyph_inv st p) (dest_img p) ?A ?col ?nest"
    using p c pc e(1-4) cell by (rule draw_glyph_paints)
  have init: "glyph_inv st p (Some st)"
    by (simp add: glyph_inv_def)
  have "glyph_inv st p (?nest (Some st))"
    using paint init by (rule paints_inv)
  then obtain st' where st': "?nest (Some st) = Some st'" "length st' = length st"
      "width (st' ! p) = width (st ! p)" "height (st' ! p) = height (st ! p)"
      "\<forall>r < length st. r \<noteq> p \<longrightarrow> st' ! r = st ! r"
    unfolding glyph_inv_def by blast
  have img: "pixels (st' ! p) q = (if q \<in> ?A then ?col q else pixels (st ! p) q)" for q
  proof -
    have "dest_img p (?nest (Some st)) q = (if q \<in> ?A then ?col q else dest_img p (Some st) q)"
      using paint init by (rule paints_img)
    then show ?thesis
      by (simp only: st'(1) dest_img_def option.sel)
  qed
  have "pixels (st' ! p) q =
          glyph_image (st ! c) fg bg (width (st ! p)) (height (st ! p)) K CX X Y (pixels (st ! p)) q"
    for q
  proof -
    obtain i j where q: "q = (i, j)"
      by (cases q)
    have mem: "(i, j) \<in> ?A \<longleftrightarrow>
                 (X \<le> i \<and> i < X + K \<and> Y \<le> j \<and> j < Y + height (st ! c) \<and>
                  0 \<le> i \<and> i < width (st ! p) \<and> 0 \<le> j \<and> j < height (st ! p) \<and>
                  text_color e (pixels (st ! c) (i - X + CX, j - Y)) \<noteq> None)"
    proof
      assume "(i, j) \<in> ?A"
      then show "X \<le> i \<and> i < X + K \<and> Y \<le> j \<and> j < Y + height (st ! c) \<and>
                  0 \<le> i \<and> i < width (st ! p) \<and> 0 \<le> j \<and> j < height (st ! p) \<and>
                  text_color e (pixels (st ! c) (i - X + CX, j - Y)) \<noteq> None"
        by auto
    next
      assume r: "X \<le> i \<and> i < X + K \<and> Y \<le> j \<and> j < Y + height (st ! c) \<and>
                  0 \<le> i \<and> i < width (st ! p) \<and> 0 \<le> j \<and> j < height (st ! p) \<and>
                  text_color e (pixels (st ! c) (i - X + CX, j - Y)) \<noteq> None"
      have "(i, j) = (X + (i - X), Y + (j - Y))"
        by simp
      with r show "(i, j) \<in> ?A"
        by (intro CollectI exI [of _ "i - X"] exI [of _ "j - Y"]) simp
    qed
    show ?thesis
      unfolding q img mem glyph_image_def
      by (auto simp add: text_color_def e(5,6) split: option.splits)
  qed
  then have "pixels (st' ! p) =
          glyph_image (st ! c) fg bg (width (st ! p)) (height (st ! p)) K CX X Y (pixels (st ! p))"
    by (rule ext)
  with st' show ?thesis
    by (simp add: draw_glyph_def)
qed

lemma text_char_glyph:
  assumes p: "p < length (heap s)" and c: "c < length (heap s)" and pc: "p \<noteq> c"
    and e: "env_p e = p" "env_c e = c" "font_width e = of_int K"
      "font_height e = of_int (height (heap s ! c))" "env_fg e = fg" "env_bg e = bg"
      "\<not> env_wrap e"
    and code: "32 \<le> code" "code \<le> 95" and K: "0 \<le> K" "width (heap s ! c) = 96 * K"
    and cur: "x_offset s = of_int X" "y_offset s = of_int Y"
  shows "\<exists>st'. text_char e code s =
             Some (s\<lparr>heap := st', glyphs := glyphs s @ [(of_int X, of_int Y)],
                     x_offset := of_int X + of_int K\<rparr>) \<and>
           length st' = length (heap s) \<and>
           (\<forall>r < length (heap s). r \<noteq> p \<longrightarrow> st' ! r = heap s ! r) \<and>
           width (st' ! p) = width (heap s ! p) \<and> height (st' ! p) = height (heap s ! p) \<and>
           pixels (st' ! p) =
             glyph_image (heap s ! c) fg bg (width (heap s ! p)) (height (heap s ! p)) K
               ((int code - 32) * K) X Y (pixels (heap s ! p))"
proof -
  let ?CX = "(int code - 32) * K"
  have cx: "(real code - 32) * real_of_int K = real_of_int ?CX"
    by simp
  have cell: "0 \<le> ?CX" "?CX + K \<le> width (heap s ! c)"
  proof -
    from code have "0 \<le> int code - 32" "int code - 32 \<le> 63"
      by linarith+
    with K(1) show "0 \<le> ?CX"
      by simp
    have "?CX + K = (int code - 31) * K"
      by (simp add: algebra_simps)
    also have "\<dots> \<le> 96 * K"
      using code K(1) by (intro mult_right_mono) linarith+
    finally show "?CX + K \<le> width (heap s ! c)"
      by (simp add: K(2))
  qed
  from draw_glyph_result [OF p c pc e(1-6) cell, of X Y]
  obtain st' where st': "draw_glyph e (of_int X) (of_int Y) (Fin (of_int ?CX)) (heap s) = Some st'"
      "length st' = length (heap s)"
      "\<forall>r < length (heap s). r \<noteq> p \<longrightarrow> st' ! r = heap s ! r"
      "width (st' ! p) = width (heap s ! p)" "height (st' ! p) = height (heap s ! p)"
      "pixels (st' ! p) =
         glyph_image (heap s ! c) fg bg (width (heap s ! p)) (height (heap s ! p)) K ?CX X Y
           (pixels (heap s ! p))"
    by blast
  have plain: "\<not> (code = 10 \<or> code = 13)" "\<not> (code < 0x20 \<or> 0x7E < code)"
    using code by simp_all
  have "text_char e code s =
          Some (s\<lparr>heap := st', glyphs := glyphs s @ [(of_int X, of_int Y)],
                  x_offset := of_int X + of_int K\<rparr>)"
    unfolding text_char_def Let_def
    by (simp only: plain if_False e(3,7) cur cx st'(1) option.case simp_thms)
  with st'(2-6) show ?thesis
    by blast
qed

section \<open>Text: the cursor\<close>

text \<open>
  Claim C7. A character of code 10 or 13 sets the cursor's x to the anchor's x and adds
  \<open>font_height\<close> to its y; it draws no glyph and writes no pixel: the store and the list of
  glyph origins are unchanged. The string \<open>A, newline, B\<close> without wrap draws two glyphs, the
  first at the anchor \<open>(x, y)\<close>, the second at \<open>(x, y + font_height)\<close>, \<open>font_height\<close> being
  the height of the atlas. For an atlas of width \<open>96 K\<close> that is not the parent and an
  anchor at integers \<open>(X, Y)\<close>, the call returns true and the parent it leaves is the
  parent it was given with the cell of \<open>A\<close> (column \<open>33 K\<close> of the atlas) drawn at \<open>(X, Y)\<close>
  and then the cell of \<open>B\<close> (column \<open>34 K\<close>) drawn at \<open>(X, Y + font_height)\<close>; no other
  resource changes.
\<close>

theorem newline_moves_cursor:
  "text_char e 10 s = Some (next_row e s) \<and>
   text_char e 13 s = Some (next_row e s) \<and>
   x_offset (next_row e s) = x_offset_start e \<and>
   y_offset (next_row e s) = y_offset s + font_height e \<and>
   heap (next_row e s) = heap s \<and>
   glyphs (next_row e s) = glyphs s \<and>
   (p < length st \<and> c < length st \<longrightarrow>
      (\<exists>s'. text_run st p c x y [65, 10, 66] False fg bg = Some s' \<and>
            glyphs s' = [(x, y), (x, y + of_int (height (st ! c)))])) \<and>
   (p < length st \<and> c < length st \<and> p \<noteq> c \<and> 0 \<le> K \<and> width (st ! c) = 96 * K \<longrightarrow>
      (\<exists>st'. bmp_plot_text st p c (of_int X) (of_int Y) [65, 10, 66] False fg bg = Some (True, st') \<and>
            length st' = length st \<and>
            (\<forall>r < length st. r \<noteq> p \<longrightarrow> st' ! r = st ! r) \<and>
            width (st' ! p) = width (st ! p) \<and> height (st' ! p) = height (st ! p) \<and>
            pixels (st' ! p) =
              glyph_image (st ! c) fg bg (width (st ! p)) (height (st ! p)) K (34 * K)
                  X (Y + height (st ! c))
                (glyph_image (st ! c) fg bg (width (st ! p)) (height (st ! p)) K (33 * K) X Y
                  (pixels (st ! p)))))"
proof -
  have rows: "\<exists>s'. text_run st p c x y [65, 10, 66] False fg bg = Some s' \<and>
            glyphs s' = [(x, y), (x, y + of_int (height (st ! c)))]"
    if refs: "p < length st" "c < length st"
  proof -
    from text_run_cursor [OF refs, of x y "[65, 10, 66]" False fg bg]
    obtain s' where s': "text_run st p c x y [65, 10, 66] False fg bg = Some s'"
        "(x_offset s', y_offset s', glyphs s') =
           fold (cursor_step (text_setup st p c x False fg bg) (of_int (width (st ! p))))
             [65, 10, 66] (x, y, [])"
      by blast
    let ?e = "text_setup st p c x False fg bg"
    have e: "x_offset_start ?e = x" "env_wrap ?e = False"
        "font_height ?e = of_int (height (st ! c))"
      by (simp_all add: text_setup_def Let_def)
    have "fold (cursor_step ?e (of_int (width (st ! p)))) [65, 10, 66] (x, y, []) =
            (x + font_width ?e, y + of_int (height (st ! c)),
             [(x, y), (x, y + of_int (height (st ! c)))])"
      by (simp add: cursor_step_def e)
    with s'(2) have "glyphs s' = [(x, y), (x, y + of_int (height (st ! c)))]"
      by simp
    with s'(1) show ?thesis
      by blast
  qed
  have drawn: "\<exists>st'. bmp_plot_text st p c (of_int X) (of_int Y) [65, 10, 66] False fg bg = Some (True, st') \<and>
            length st' = length st \<and>
            (\<forall>r < length st. r \<noteq> p \<longrightarrow> st' ! r = st ! r) \<and>
            width (st' ! p) = width (st ! p) \<and> height (st' ! p) = height (st ! p) \<and>
            pixels (st' ! p) =
              glyph_image (st ! c) fg bg (width (st ! p)) (height (st ! p)) K (34 * K)
                  X (Y + height (st ! c))
                (glyph_image (st ! c) fg bg (width (st ! p)) (height (st ! p)) K (33 * K) X Y
                  (pixels (st ! p)))"
    if refs: "p < length st" "c < length st" and pc: "p \<noteq> c"
      and K: "0 \<le> K" "width (st ! c) = 96 * K"
  proof -
    let ?e = "text_setup st p c (of_int X) False fg bg"
    let ?H = "height (st ! c)"
    have e: "env_p ?e = p" "env_c ?e = c" "font_width ?e = of_int K"
        "font_height ?e = of_int ?H" "env_fg ?e = fg" "env_bg ?e = bg" "\<not> env_wrap ?e"
        "x_offset_start ?e = of_int X"
      by (simp_all add: text_setup_def Let_def K(2))
    let ?s0 = "\<lparr>x_offset = of_int X, y_offset = of_int Y, heap = st, glyphs = []\<rparr>"
    from text_char_glyph [where s = ?s0 and e = ?e and p = p and c = c and K = K and code = 65
        and fg = fg and bg = bg and X = X and Y = Y] refs pc e K
    obtain st1 where st1:
        "text_char ?e 65 ?s0 =
           Some (?s0\<lparr>heap := st1, glyphs := glyphs ?s0 @ [(of_int X, of_int Y)],
                    x_offset := of_int X + of_int K\<rparr>)"
        "length st1 = length st" "\<forall>r < length st. r \<noteq> p \<longrightarrow> st1 ! r = st ! r"
        "width (st1 ! p) = width (st ! p)" "height (st1 ! p) = height (st ! p)"
        "pixels (st1 ! p) =
           glyph_image (st ! c) fg bg (width (st ! p)) (height (st ! p)) K (33 * K) X Y
             (pixels (st ! p))"
      by auto
    let ?s1 = "\<lparr>x_offset = of_int X + of_int K, y_offset = of_int Y, heap = st1,
               glyphs = [(of_int X, of_int Y)]\<rparr>"
    let ?s2 = "\<lparr>x_offset = of_int X, y_offset = of_int (Y + ?H), heap = st1,
               glyphs = [(real_of_int X, real_of_int Y)]\<rparr>"
    have one: "text_char ?e 65 ?s0 = Some ?s1"
      by (simp add: st1(1))
    have two: "text_char ?e 10 ?s1 = Some ?s2"
      by (simp add: text_char_def next_row_def e)
    from st1(3) refs pc have atlas: "st1 ! c = st ! c"
      by simp
    from text_char_glyph [where s = ?s2 and e = ?e and p = p and c = c and K = K and code = 66
        and fg = fg and bg = bg and X = X and Y = "Y + ?H"] refs pc e K st1(2) atlas
    obtain st2 where st2:
        "text_char ?e 66 ?s2 =
           Some (?s2\<lparr>heap := st2, glyphs := glyphs ?s2 @ [(of_int X, of_int (Y + ?H))],
                    x_offset := of_int X + of_int K\<rparr>)"
        "length st2 = length st1" "\<forall>r < length st1. r \<noteq> p \<longrightarrow> st2 ! r = st1 ! r"
        "width (st2 ! p) = width (st1 ! p)" "height (st2 ! p) = height (st1 ! p)"
        "pixels (st2 ! p) =
           glyph_image (st1 ! c) fg bg (width (st1 ! p)) (height (st1 ! p)) K (34 * K) X (Y + ?H)
             (pixels (st1 ! p))"
      by auto
    have "text_run st p c (of_int X) (of_int Y) [65, 10, 66] False fg bg =
            Some (?s2\<lparr>heap := st2, glyphs := glyphs ?s2 @ [(of_int X, of_int (Y + ?H))],
                    x_offset := of_int X + of_int K\<rparr>)"
      unfolding text_run_def by (simp only: text_loop.simps one two st2(1) option.case)
    then have "bmp_plot_text st p c (of_int X) (of_int Y) [65, 10, 66] False fg bg = Some (True, st2)"
      by (simp add: bmp_plot_text_def)
    moreover have "length st2 = length st"
      using st1(2) st2(2) by simp
    moreover have "\<forall>r < length st. r \<noteq> p \<longrightarrow> st2 ! r = st ! r"
      using st1(2,3) st2(3) by simp
    moreover have "width (st2 ! p) = width (st ! p)" "height (st2 ! p) = height (st ! p)"
      using st1(4,5) st2(4,5) by simp_all
    moreover have "pixels (st2 ! p) =
              glyph_image (st ! c) fg bg (width (st ! p)) (height (st ! p)) K (34 * K)
                  X (Y + height (st ! c))
                (glyph_image (st ! c) fg bg (width (st ! p)) (height (st ! p)) K (33 * K) X Y
                  (pixels (st ! p)))"
      by (simp only: st2(6) st1(4,5,6) atlas)
    ultimately show ?thesis
      by blast
  qed
  have nl: "text_char e 10 s = Some (next_row e s) \<and>
   text_char e 13 s = Some (next_row e s) \<and>
   x_offset (next_row e s) = x_offset_start e \<and>
   y_offset (next_row e s) = y_offset s + font_height e \<and>
   heap (next_row e s) = heap s \<and>
   glyphs (next_row e s) = glyphs s"
    by (simp add: text_char_def next_row_def)
  from nl rows drawn show ?thesis
    by (intro conjI impI) blast+
qed

theorem newline_moves_cursor_witness:
  "(\<exists>s'. text_run [\<lparr>width = 2, height = 3, pixels = \<lambda>q. (7, 7, 7)\<rparr>,
                    \<lparr>width = 96, height = 1,
                     pixels = \<lambda>q. if q = (33, 0) then (10, 10, 10)
                                  else if q = (34, 0) then (20, 20, 20) else (30, 30, 30)\<rparr>]
            0 1 0 0 [65, 10, 66] False (255, 0, 0) (- 1, - 1, - 1) = Some s' \<and>
          glyphs s' = [(0, 0), (0, 1)]) \<and>
   (\<exists>st'. bmp_plot_text [\<lparr>width = 2, height = 3, pixels = \<lambda>q. (7, 7, 7)\<rparr>,
                          \<lparr>width = 96, height = 1,
                           pixels = \<lambda>q. if q = (33, 0) then (10, 10, 10)
                                        else if q = (34, 0) then (20, 20, 20) else (30, 30, 30)\<rparr>]
             0 1 0 0 [65, 10, 66] False (255, 0, 0) (- 1, - 1, - 1) = Some (True, st') \<and>
           pixels (st' ! 0) (0, 0) = (10, 10, 10) \<and>
           pixels (st' ! 0) (0, 1) = (20, 20, 20) \<and>
           pixels (st' ! 0) (1, 0) = (7, 7, 7) \<and>
           pixels (st' ! 0) (0, 2) = (7, 7, 7))"
proof -
  let ?dst = "\<lparr>width = 2, height = 3, pixels = \<lambda>q. (7::int, 7::int, 7::int)\<rparr>"
  let ?atlas = "\<lparr>width = 96, height = 1,
                 pixels = \<lambda>q. if q = (33::int, 0::int) then (10::int, 10::int, 10::int)
                              else if q = (34, 0) then (20, 20, 20) else (30, 30, 30)\<rparr>"
  let ?st = "[?dst, ?atlas]"
  let ?fg = "(255::int, 0::int, 0::int)" and ?bg = "(- 1::int, - 1::int, - 1::int)"
  note t = newline_moves_cursor
    [where p = 0 and c = 1 and x = 0 and y = 0 and X = 0 and Y = 0 and K = 1
       and fg = ?fg and bg = ?bg and st = ?st
       and e = "text_setup ?st 0 1 0 False ?fg ?bg"
       and s = "\<lparr>x_offset = 0, y_offset = 0, heap = ?st, glyphs = []\<rparr>"]
  from t have "0 < length ?st \<and> 1 < length ?st \<longrightarrow>
      (\<exists>s'. text_run ?st 0 1 0 0 [65, 10, 66] False ?fg ?bg = Some s' \<and>
            glyphs s' = [(0, 0), (0, 0 + of_int (height (?st ! 1)))])"
    by (elim conjE) assumption
  then have rows: "\<exists>s'. text_run ?st 0 1 0 0 [65, 10, 66] False ?fg ?bg = Some s' \<and>
            glyphs s' = [(0, 0), (0, 1)]"
    by simp
  from t have "0 < length ?st \<and> 1 < length ?st \<and> (0::nat) \<noteq> 1 \<and> (0::int) \<le> 1 \<and>
       width (?st ! 1) = 96 * 1 \<longrightarrow>
      (\<exists>st'. bmp_plot_text ?st 0 1 (of_int 0) (of_int 0) [65, 10, 66] False ?fg ?bg = Some (True, st') \<and>
            length st' = length ?st \<and>
            (\<forall>r < length ?st. r \<noteq> 0 \<longrightarrow> st' ! r = ?st ! r) \<and>
            width (st' ! 0) = width (?st ! 0) \<and> height (st' ! 0) = height (?st ! 0) \<and>
            pixels (st' ! 0) =
              glyph_image (?st ! 1) ?fg ?bg (width (?st ! 0)) (height (?st ! 0)) 1 (34 * 1)
                  0 (0 + height (?st ! 1))
                (glyph_image (?st ! 1) ?fg ?bg (width (?st ! 0)) (height (?st ! 0)) 1 (33 * 1) 0 0
                  (pixels (?st ! 0))))"
    by (elim conjE) assumption
  then obtain st' where st': "bmp_plot_text ?st 0 1 0 0 [65, 10, 66] False ?fg ?bg = Some (True, st')"
      "pixels (st' ! 0) =
         glyph_image ?atlas ?fg ?bg 2 3 1 34 0 1 (glyph_image ?atlas ?fg ?bg 2 3 1 33 0 0 (\<lambda>q. (7, 7, 7)))"
    by auto
  have "pixels (st' ! 0) (0, 0) = (10, 10, 10)" "pixels (st' ! 0) (0, 1) = (20, 20, 20)"
      "pixels (st' ! 0) (1, 0) = (7, 7, 7)" "pixels (st' ! 0) (0, 2) = (7, 7, 7)"
    unfolding st'(2) by (simp_all add: glyph_image_def glyph_color_def)
  with st'(1) rows show ?thesis
    by blast
qed


lemma rows_inv_step:
  assumes e: "env_wrap e" "x_offset_start e = x" "font_width e = fw" "font_height e = fh"
    and pos: "0 < fh" "0 < fw" "0 \<le> x" and narrow: "W < 2 * fw"
    and inv: "rows_inv x fw cur"
  shows "rows_inv x fw (cursor_step e W char_code cur)"
proof -
  obtain xo yo gl where cur: "cur = (xo, yo, gl)"
    by (cases cur)
  from inv cur have le: "\<forall>g \<in> set gl. fst g = x \<and> snd g \<le> yo"
    and srt: "sorted_wrt (<) (map snd gl)"
    and at: "xo = x \<and> (\<forall>g \<in> set gl. snd g < yo) \<or> xo = x + fw"
    by (simp_all add: rows_inv_def)
  consider (newline) "char_code = 10 \<or> char_code = 13"
    | (wrapped) "\<not> (char_code = 10 \<or> char_code = 13)" "W < xo + fw"
    | (plain) "\<not> (char_code = 10 \<or> char_code = 13)" "\<not> W < xo + fw"
    by blast
  then show ?thesis
  proof cases
    case newline
    then have "cursor_step e W char_code cur = (x, yo + fh, gl)"
      by (auto simp: cursor_step_def cur e)
    moreover have "\<forall>g \<in> set gl. snd g < yo + fh"
      using le pos by fastforce
    ultimately show ?thesis
      using le srt by (fastforce simp: rows_inv_def)
  next
    case wrapped
    then have "cursor_step e W char_code cur = (x + fw, yo + fh, gl @ [(x, yo + fh)])"
      by (simp add: cursor_step_def cur e)
    moreover have "\<forall>g \<in> set gl. snd g < yo + fh"
      using le pos by fastforce
    ultimately show ?thesis
      using le srt pos by (fastforce simp: rows_inv_def sorted_wrt_append)
  next
    case plain
    have "xo \<noteq> x + fw"
      using plain(2) narrow pos by auto
    with at have here: "xo = x" "\<forall>g \<in> set gl. snd g < yo"
      by auto
    from plain have "cursor_step e W char_code cur = (x + fw, yo, gl @ [(x, yo)])"
      by (simp add: cursor_step_def cur e here)
    then show ?thesis
      using le srt here by (fastforce simp: rows_inv_def sorted_wrt_append)
  qed
qed

lemma rows_inv_fold:
  assumes e: "env_wrap e" "x_offset_start e = x" "font_width e = fw" "font_height e = fh"
    and pos: "0 < fh" "0 < fw" "0 \<le> x" and narrow: "W < 2 * fw"
  shows "rows_inv x fw cur \<Longrightarrow> rows_inv x fw (fold (cursor_step e W) str cur)"
proof (induction str arbitrary: cur)
  case Nil
  then show ?case by simp
next
  case (Cons ch rest)
  have "rows_inv x fw (cursor_step e W ch cur)"
    using e pos narrow Cons.prems by (rule rows_inv_step)
  then show ?case
    by (simp add: Cons.IH)
qed

text \<open>
  Claim C8, as amended. With wrap enabled, a glyph that would extend past the right edge of
  the parent (\<open>x_offset + font_width > width\<close>) is drawn at the anchor's x, one
  \<open>font_height\<close> lower, and the cursor goes on from there. If moreover the anchor's x is not
  negative, the atlas has positive dimensions and the parent is narrower than
  \<open>2 * font_width\<close>, then for every string (so for every string of three characters) all
  glyphs are drawn at distinct, increasing y-origins: at most one glyph per row.
\<close>

theorem wrap_one_glyph_per_row:
  "(env_wrap e \<and> char_code \<noteq> 10 \<and> char_code \<noteq> 13 \<and>
    of_int (width (heap s ! env_p e)) < x_offset s + font_width e \<longrightarrow>
      text_char e char_code s =
        (case draw_glyph e (x_offset_start e) (y_offset s + font_height e)
                (if char_code < 0x20 \<or> 0x7E < char_code
                 then js_mul (Fin (font_width e)) (js_add (font_chars e) (Fin (- 1)))
                 else Fin ((of_nat char_code - 32) * font_width e))
                (heap s) of
           None \<Rightarrow> None
         | Some st' \<Rightarrow>
             Some (s\<lparr>x_offset := x_offset_start e + font_width e,
                     y_offset := y_offset s + font_height e,
                     heap := st',
                     glyphs := glyphs s @ [(x_offset_start e, y_offset s + font_height e)]\<rparr>))) \<and>
   (p < length st \<and> c < length st \<and> 0 \<le> x \<and> 0 < width (st ! c) \<and> 0 < height (st ! c) \<and>
    real_of_int (width (st ! p)) < 2 * (real_of_int (width (st ! c)) / 96) \<longrightarrow>
      (\<exists>s'. text_run st p c x y str True fg bg = Some s' \<and>
            (\<forall>g \<in> set (glyphs s'). fst g = x) \<and>
            sorted_wrt (<) (map snd (glyphs s')) \<and>
            distinct (map snd (glyphs s'))))"
proof (intro conjI impI)
  assume "env_wrap e \<and> char_code \<noteq> 10 \<and> char_code \<noteq> 13 \<and>
    of_int (width (heap s ! env_p e)) < x_offset s + font_width e"
  then show "text_char e char_code s =
        (case draw_glyph e (x_offset_start e) (y_offset s + font_height e)
                (if char_code < 0x20 \<or> 0x7E < char_code
                 then js_mul (Fin (font_width e)) (js_add (font_chars e) (Fin (- 1)))
                 else Fin ((of_nat char_code - 32) * font_width e))
                (heap s) of
           None \<Rightarrow> None
         | Some st' \<Rightarrow>
             Some (s\<lparr>x_offset := x_offset_start e + font_width e,
                     y_offset := y_offset s + font_height e,
                     heap := st',
                     glyphs := glyphs s @ [(x_offset_start e, y_offset s + font_height e)]\<rparr>))"
    by (simp add: text_char_def next_row_def Let_def split: option.splits)
next
  assume h: "p < length st \<and> c < length st \<and> 0 \<le> x \<and> 0 < width (st ! c) \<and> 0 < height (st ! c) \<and>
    real_of_int (width (st ! p)) < 2 * (real_of_int (width (st ! c)) / 96)"
  let ?e = "text_setup st p c x True fg bg"
  let ?fw = "real_of_int (width (st ! c)) / 96"
  from h have refs: "p < length st" "c < length st"
    by simp_all
  from text_run_cursor [OF refs, of x y str True fg bg]
  obtain s' where s': "text_run st p c x y str True fg bg = Some s'"
      "(x_offset s', y_offset s', glyphs s') =
         fold (cursor_step ?e (of_int (width (st ! p)))) str (x, y, [])"
    by blast
  have e: "env_wrap ?e" "x_offset_start ?e = x" "font_width ?e = ?fw"
      "font_height ?e = of_int (height (st ! c))"
    by (simp_all add: text_setup_def Let_def)
  have init: "rows_inv x ?fw (x, y, [])"
    by (simp add: rows_inv_def)
  have "rows_inv x ?fw (fold (cursor_step ?e (of_int (width (st ! p)))) str (x, y, []))"
    by (rule rows_inv_fold [OF e _ _ _ _ init]) (use h in simp_all)
  with s'(2) have "rows_inv x ?fw (x_offset s', y_offset s', glyphs s')"
    by simp
  then have "(\<forall>g \<in> set (glyphs s'). fst g = x) \<and> sorted_wrt (<) (map snd (glyphs s'))"
    by (simp add: rows_inv_def)
  moreover from this have "distinct (map snd (glyphs s'))"
    by (simp add: strict_sorted_iff)
  ultimately show "\<exists>s'. text_run st p c x y str True fg bg = Some s' \<and>
            (\<forall>g \<in> set (glyphs s'). fst g = x) \<and>
            sorted_wrt (<) (map snd (glyphs s')) \<and>
            distinct (map snd (glyphs s'))"
    using s'(1) by blast
qed


theorem wrap_one_glyph_per_row_witness:
  "(\<exists>st'. text_char (text_setup [\<lparr>width = 3, height = 4, pixels = \<lambda>q. (7, 7, 7)\<rparr>,
                                  \<lparr>width = 192, height = 1, pixels = \<lambda>q. (255, 255, 255)\<rparr>]
                        0 1 0 True (255, 0, 0) (- 1, - 1, - 1)) 66
             \<lparr>x_offset = 2, y_offset = 0,
              heap = [\<lparr>width = 3, height = 4, pixels = \<lambda>q. (7, 7, 7)\<rparr>,
                      \<lparr>width = 192, height = 1, pixels = \<lambda>q. (255, 255, 255)\<rparr>],
              glyphs = [(0, 0)]\<rparr> =
           Some \<lparr>x_offset = 2, y_offset = 1, heap = st', glyphs = [(0, 0), (0, 1)]\<rparr>) \<and>
   (\<exists>s'. text_run [\<lparr>width = 3, height = 4, pixels = \<lambda>q. (7, 7, 7)\<rparr>,
                    \<lparr>width = 192, height = 1, pixels = \<lambda>q. (255, 255, 255)\<rparr>]
            0 1 0 0 [65, 66, 67] True (255, 0, 0) (- 1, - 1, - 1) = Some s' \<and>
          (\<forall>g \<in> set (glyphs s'). fst g = 0) \<and>
          distinct (map snd (glyphs s')))"
proof -
  let ?st = "[\<lparr>width = 3, height = 4, pixels = \<lambda>q. (7::int, 7::int, 7::int)\<rparr>,
              \<lparr>width = 192, height = 1, pixels = \<lambda>q. (255::int, 255::int, 255::int)\<rparr>]"
  let ?e = "text_setup ?st 0 1 0 True (255, 0, 0) (- 1, - 1, - 1)"
  let ?s = "\<lparr>x_offset = 2, y_offset = 0, heap = ?st, glyphs = [(0::real, 0::real)]\<rparr>"
  have "\<exists>st'. text_char ?e 66 ?s =
           Some \<lparr>x_offset = 2, y_offset = 1, heap = st', glyphs = [(0, 0), (0, 1)]\<rparr>"
    using wrap_one_glyph_per_row [where e = ?e and s = ?s and char_code = 66, THEN conjunct1]
    by (simp add: text_setup_def draw_glyph_def for_loop_once for_loop_twice text_pixel_def
        text_color_def glyph_color_def text_write_def bmp_resource_get_pixel_def
        bmp_resource_set_pixel_def)
  moreover have "\<exists>s'. text_run ?st 0 1 0 0 [65, 66, 67] True (255, 0, 0) (- 1, - 1, - 1) = Some s' \<and>
          (\<forall>g \<in> set (glyphs s'). fst g = 0) \<and> distinct (map snd (glyphs s'))"
    using wrap_one_glyph_per_row
      [where p = 0 and c = 1 and x = 0 and y = 0 and str = "[65, 66, 67]"
         and fg = "(255, 0, 0)" and bg = "(- 1, - 1, - 1)" and st = ?st, THEN conjunct2]
    by auto
  ultimately show ?thesis
    by blast
qed

text \<open>
  The claim as stated fails for a negative anchor: with glyphs two pixels wide, a parent
  three pixels wide and the anchor at \<open>x = -1\<close>, the first two glyphs of a three-character
  string are drawn in the same row, at \<open>x = -1\<close> and at \<open>x = 1\<close>; all three pixels of row 0
  are written, the first by one glyph and the other two by the next.
\<close>

theorem wrap_one_glyph_per_row_counterexample:
  "real_of_int 3 < 2 * (real_of_int 192 / 96) \<and>
   (\<exists>s'. text_run [\<lparr>width = 3, height = 4, pixels = \<lambda>q. (7, 7, 7)\<rparr>,
                    \<lparr>width = 192, height = 1, pixels = \<lambda>q. (255, 255, 255)\<rparr>]
            0 1 (- 1) 0 [65, 66, 67] True (255, 0, 0) (- 1, - 1, - 1) = Some s' \<and>
          glyphs s' = [(- 1, 0), (1, 0), (- 1, 1)]) \<and>
   (\<exists>st'. bmp_plot_text [\<lparr>width = 3, height = 4, pixels = \<lambda>q. (7, 7, 7)\<rparr>,
                          \<lparr>width = 192, height = 1, pixels = \<lambda>q. (255, 255, 255)\<rparr>]
            0 1 (- 1) 0 [65, 66, 67] True (255, 0, 0) (- 1, - 1, - 1) = Some (True, st') \<and>
          map (\<lambda>q. pixels (st' ! 0) q) [(0, 0), (1, 0), (2, 0), (0, 1), (1, 1), (2, 1)] =
            [(255, 0, 0), (255, 0, 0), (255, 0, 0), (255, 0, 0), (7, 7, 7), (7, 7, 7)])"
proof -
  let ?st = "[\<lparr>width = 3, height = 4, pixels = \<lambda>q. (7::int, 7::int, 7::int)\<rparr>,
              \<lparr>width = 192, height = 1, pixels = \<lambda>q. (255::int, 255::int, 255::int)\<rparr>]"
  let ?e = "text_setup ?st 0 (Suc 0) (- 1) True (255, 0, 0) (- 1, - 1, - 1)"
  have refs: "(0::nat) < length ?st" "Suc 0 < length ?st"
    by simp_all
  from text_run_cursor [OF refs, of "- 1" 0 "[65, 66, 67]" True "(255, 0, 0)" "(- 1, - 1, - 1)"]
  obtain s' where s': "text_run ?st 0 (Suc 0) (- 1) 0 [65, 66, 67] True (255, 0, 0) (- 1, - 1, - 1) = Some s'"
      "(x_offset s', y_offset s', glyphs s') =
         fold (cursor_step ?e (of_int (width (?st ! 0)))) [65, 66, 67] (- 1, 0, [])"
    by blast
  have e: "env_wrap ?e" "x_offset_start ?e = - 1" "font_width ?e = 2" "font_height ?e = 1"
    by (simp_all add: text_setup_def Let_def)
  have "fold (cursor_step ?e (of_int (width (?st ! 0)))) [65, 66, 67] (- 1, 0, []) =
          (1, 1, [(- 1, 0), (1, 0), (- 1, 1)])"
    by (simp add: cursor_step_def e)
  with s'(2) have "glyphs s' = [(- 1, 0), (1, 0), (- 1, 1)]"
    by simp
  with s'(1) have layout: "\<exists>s'. text_run ?st 0 (Suc 0) (- 1) 0 [65, 66, 67] True (255, 0, 0) (- 1, - 1, - 1) = Some s' \<and>
          glyphs s' = [(- 1, 0), (1, 0), (- 1, 1)]"
    by blast
  have drawn: "\<exists>st'. bmp_plot_text ?st 0 (Suc 0) (- 1) 0 [65, 66, 67] True (255, 0, 0) (- 1, - 1, - 1)
            = Some (True, st') \<and>
          map (\<lambda>q. pixels (st' ! 0) q) [(0, 0), (1, 0), (2, 0), (0, 1), (1, 1), (2, 1)] =
            [(255, 0, 0), (255, 0, 0), (255, 0, 0), (255, 0, 0), (7, 7, 7), (7, 7, 7)]"
    by (simp add: text_unfold for_loop_twice next_row_def)
  from layout drawn show ?thesis
    by simp
qed

section \<open>Returning\<close>



lemma outline_step_None [simp]: "outline_step points x y w h r g b p i None = None"
  by (simp add: outline_step_def)






















end
